theory Spec2Isabelle
  imports Complex_Main "HOL-Library.Word"
begin

unbundle bit_operations_syntax

section \<open>Strike value\<close>

text \<open>
  Python ints are \<open>int\<close>. A Python float is a binary64 number; it is modelled by the
  real number it denotes (a \<open>real\<close>). In the strike value computation every float
  operation is rounded to the nearest binary64 number, as the interpreter does
  (\<open>round_to_double\<close> below). The arithmetic of the calibration engine, in the later
  sections, is idealised as exact real arithmetic.

  The builtin \<open>round\<close> with one argument rounds to the nearest integer and resolves a
  tie (fractional part exactly one half) to the even neighbour.
\<close>

definition py_round :: "real \<Rightarrow> int" where
  "py_round x =
     (let f = \<lfloor>x\<rfloor>; d = x - of_int f
      in if d < 1 / 2 then f
         else if 1 / 2 < d then f + 1
         else if even f then f else f + 1)"

text \<open>
  The binary64 numbers are the reals \<open>m * 2 powi (e - 52)\<close> with an integer \<open>m\<close>,
  \<open>\<bar>m\<bar> < 2 ^ 53\<close>, and an exponent \<open>- 1022 \<le> e \<le> 1023\<close>. The exponent that serves a
  magnitude \<open>a\<close> is the \<open>e\<close> with \<open>2 powi e \<le> a < 2 powi (e + 1)\<close>, but never less than
  \<open>- 1022\<close> (below \<open>2 powi (- 1022)\<close> the numbers are subnormal, all with spacing
  \<open>2 powi (- 1074)\<close>). The search for it is bounded: upwards from 0 it stops at 1024,
  downwards from \<open>- 1\<close> at \<open>- 1022\<close>.
\<close>

function exp_up :: "int \<Rightarrow> real \<Rightarrow> int" where
  "exp_up e a = (if 1024 \<le> e \<or> a < 2 powi (e + 1) then e else exp_up (e + 1) a)"
  by pat_completeness auto
termination
  by (relation "measure (\<lambda>(e, a). nat (1024 - e))") auto

function exp_down :: "int \<Rightarrow> real \<Rightarrow> int" where
  "exp_down e a = (if e \<le> - 1022 \<or> 2 powi e \<le> a then e else exp_down (e - 1) a)"
  by pat_completeness auto
termination
  by (relation "measure (\<lambda>(e, a). nat (e + 1022))") auto

declare exp_up.simps [simp del]
declare exp_down.simps [simp del]

definition binade :: "real \<Rightarrow> int" where
  "binade a = (if 1 \<le> a then exp_up 0 a else exp_down (- 1) a)"

text \<open>
  Rounding to the nearest binary64 number, a tie to the one with the even significand
  (the rounding of every float operation, and of the conversion of an int operand to
  float): the real is scaled by the spacing \<open>q\<close> of the binary64 numbers around it,
  rounded to an integer, and scaled back. A result of magnitude \<open>2 powi 1024\<close> or more
  is no binary64 number: there the operation overflows.
\<close>

definition round_to_double :: "real \<Rightarrow> real" where
  "round_to_double x =
     (let q = 2 powi (binade \<bar>x\<bar> - 52) in of_int (py_round (x / q)) * q)"

text \<open>The conversion of an int operand of a mixed int and float operation.\<close>

definition float_of_int :: "int \<Rightarrow> real" where
  "float_of_int n = round_to_double (of_int n)"

text \<open>
  \<^verbatim>\<open>
  def _compute_strike_value(open_value, close_reference, down_fraction):
      down_fraction = max(0.0, min(1.0, down_fraction))
      value = open_value + (close_reference - open_value) * down_fraction
      return int(round(value))
  \<close>
  The same function stands in continuous_practice.py and in four_finger_note_test.py.

  The difference \<^verbatim>\<open>close_reference - open_value\<close> is exact int arithmetic. The product
  converts it to float and rounds the product; the sum converts \<^verbatim>\<open>open_value\<close> to float
  and rounds the sum. \<open>strike_float\<close> is the float \<^verbatim>\<open>value\<close> for a down fraction that is
  already clamped.
\<close>

definition strike_float :: "int \<Rightarrow> int \<Rightarrow> real \<Rightarrow> real" where
  "strike_float open_value close_reference down_fraction =
     round_to_double
       (float_of_int open_value
        + round_to_double (float_of_int (close_reference - open_value) * down_fraction))"

text \<open>
  The function raises \<^verbatim>\<open>OverflowError\<close> instead of returning when the conversion of
  \<^verbatim>\<open>open_value\<close> or of the difference overflows (``int too large to convert to float''),
  or when the sum overflows to an infinity, which \<^verbatim>\<open>round\<close> rejects. The product cannot
  overflow: the clamped down fraction is at most 1. \<open>strike_value_overflows\<close> tells
  whether the function raises, \<open>compute_strike_value\<close> is the value it returns when it
  does not. Both routines compute the strike value once, before their first actuator
  call; their models below describe the runs in which it is returned.

  The down fraction is a \<open>real\<close>, so the three floats that denote no real are left out;
  the clamp of the code turns \<^verbatim>\<open>nan\<close> and \<^verbatim>\<open>inf\<close> into 1.0 and \<^verbatim>\<open>-inf\<close> into 0.0.
\<close>

definition strike_value_overflows :: "int \<Rightarrow> int \<Rightarrow> real \<Rightarrow> bool" where
  "strike_value_overflows open_value close_reference down_fraction =
     (let down_fraction' = max 0 (min 1 down_fraction)
      in 2 powi 1024 \<le> \<bar>float_of_int open_value\<bar>
         \<or> 2 powi 1024 \<le> \<bar>float_of_int (close_reference - open_value)\<bar>
         \<or> 2 powi 1024 \<le> \<bar>strike_float open_value close_reference down_fraction'\<bar>)"

definition compute_strike_value :: "int \<Rightarrow> int \<Rightarrow> real \<Rightarrow> int" where
  "compute_strike_value open_value close_reference down_fraction =
     (let down_fraction' = max 0 (min 1 down_fraction);
          v = strike_float open_value close_reference down_fraction'
      in py_round v)"

text \<open>The specification's clamp to the unit interval, written from its words.\<close>

definition clamp01 :: "real \<Rightarrow> real" where
  "clamp01 x = (if x < 0 then 0 else if 1 < x then 1 else x)"

section \<open>Calibration engine: margin score\<close>

datatype py_error = IndexError | ValueError

text \<open>
  \<^verbatim>\<open>JOINT_LIMITS_DEG\<close>, the joint limits of the arm in degrees (lower, upper), J1 to J6.
\<close>

definition JOINT_LIMITS_DEG :: "(real \<times> real) list" where
  "JOINT_LIMITS_DEG =
     [(-360, 360), (-132, 132), (-242, 7 / 2), (-360, 360), (-124, 124), (-360, 360)]"

text \<open>
  \<^verbatim>\<open>
  def _pose_with_j1_offset(base_pose, delta_j1_deg):
      pose = list(base_pose)
      pose[0] = pose[0] + delta_j1_deg
      return pose
  \<close>
  An empty pose has no element 0: the assignment raises IndexError.
\<close>

definition pose_with_j1_offset :: "real list \<Rightarrow> real \<Rightarrow> py_error + real list" where
  "pose_with_j1_offset base_pose delta_j1_deg =
     (case base_pose of
        [] \<Rightarrow> Inl IndexError
      | j1 # rest \<Rightarrow> Inr ((j1 + delta_j1_deg) # rest))"

text \<open>
  The body of the loop of \<^verbatim>\<open>_joint_margin_score\<close> for one joint: the value appended
  to \<^verbatim>\<open>margins\<close>.
  \<^verbatim>\<open>
      if upper <= lower:
          margins.append(0.0)
          continue
      distance_to_edge = min(angle - lower, upper - angle)
      normalized = max(0.0, min(1.0, (2.0 * distance_to_edge) / (upper - lower)))
      margins.append(normalized)
  \<close>
\<close>

definition joint_margin :: "real \<Rightarrow> real \<times> real \<Rightarrow> real" where
  "joint_margin angle lu =
     (case lu of (lower, upper) \<Rightarrow>
        if upper \<le> lower then 0
        else (let distance_to_edge = min (angle - lower) (upper - angle)
              in max 0 (min 1 ((2 * distance_to_edge) / (upper - lower)))))"

text \<open>
  \<^verbatim>\<open>
  def _joint_margin_score(angles_deg):
      margins = []
      for angle, (lower, upper) in zip(angles_deg, JOINT_LIMITS_DEG):
          ...
      return min(margins) if margins else 0.0
  \<close>
  The table of limits is a module constant in the source; the model takes it as an
  argument first, so that tables other than the shipped one can be spoken about, and
  then fixes it to \<^verbatim>\<open>JOINT_LIMITS_DEG\<close>.
\<close>

definition joint_margin_score_with :: "(real \<times> real) list \<Rightarrow> real list \<Rightarrow> real" where
  "joint_margin_score_with limits angles_deg =
     (let margins = map (\<lambda>(angle, lu). joint_margin angle lu) (zip angles_deg limits)
      in if margins = [] then 0 else min_list margins)"

definition joint_margin_score :: "real list \<Rightarrow> real" where
  "joint_margin_score angles_deg = joint_margin_score_with JOINT_LIMITS_DEG angles_deg"

text \<open>
  \<^verbatim>\<open>
  def _candidate_margin(center_pose_deg, sweep_delta_j1_deg):
      left = _pose_with_j1_offset(center_pose_deg, -abs(sweep_delta_j1_deg))
      right = _pose_with_j1_offset(center_pose_deg, abs(sweep_delta_j1_deg))
      return min(_joint_margin_score(center_pose_deg),
                 _joint_margin_score(left), _joint_margin_score(right))
  \<close>
\<close>

definition candidate_margin :: "real list \<Rightarrow> real \<Rightarrow> py_error + real" where
  "candidate_margin center_pose_deg sweep_delta_j1_deg =
     (case pose_with_j1_offset center_pose_deg (- \<bar>sweep_delta_j1_deg\<bar>) of
        Inl e \<Rightarrow> Inl e
      | Inr left \<Rightarrow>
          (case pose_with_j1_offset center_pose_deg \<bar>sweep_delta_j1_deg\<bar> of
             Inl e \<Rightarrow> Inl e
           | Inr right \<Rightarrow>
               Inr (min (joint_margin_score center_pose_deg)
                     (min (joint_margin_score left) (joint_margin_score right)))))"

section \<open>Calibration engine: sweep benchmark\<close>

text \<open>
  The arm is an external collaborator. Its behaviour during one run is a stream of
  answers, one per call of \<^verbatim>\<open>move_joints\<close>: whether the move was accepted and how
  long the call took (the difference of the two \<^verbatim>\<open>time.perf_counter()\<close> readings
  around it). The poses commanded so far are kept in a move log; the answer to the next call
  is the stream's entry at the length of that log.
\<close>

type_synonym arm_env = "nat \<Rightarrow> bool \<times> real"
type_synonym move_log = "real list list"

text \<open>The warm-up pass: each pose in turn, stopping at the first rejected move.\<close>

fun warmup_moves :: "arm_env \<Rightarrow> real list list \<Rightarrow> move_log \<Rightarrow> bool \<times> move_log" where
  "warmup_moves env [] mlog = (True, mlog)"
| "warmup_moves env (p # ps) mlog =
     (if fst (env (length mlog)) then warmup_moves env ps (mlog @ [p])
      else (False, mlog @ [p]))"

text \<open>
  One cycle of timed moves (left, right, centre): a rejected move ends the benchmark
  with the segment times collected so far, an accepted one appends its duration.
\<close>

fun timed_moves ::
  "arm_env \<Rightarrow> real list list \<Rightarrow> real list \<Rightarrow> move_log \<Rightarrow> bool \<times> real list \<times> move_log" where
  "timed_moves env [] segment_times mlog = (True, segment_times, mlog)"
| "timed_moves env (p # ps) segment_times mlog =
     (case env (length mlog) of (accepted, elapsed) \<Rightarrow>
        if \<not> accepted then (False, segment_times, mlog @ [p])
        else timed_moves env ps (segment_times @ [elapsed]) (mlog @ [p]))"

fun sweep_cycles ::
  "arm_env \<Rightarrow> nat \<Rightarrow> real list list \<Rightarrow> real list \<Rightarrow> move_log \<Rightarrow> bool \<times> real list \<times> move_log" where
  "sweep_cycles env 0 poses segment_times mlog = (True, segment_times, mlog)"
| "sweep_cycles env (Suc n) poses segment_times mlog =
     (case timed_moves env poses segment_times mlog of
        (completed, segment_times', mlog') \<Rightarrow>
          if completed then sweep_cycles env n poses segment_times' mlog'
          else (False, segment_times', mlog'))"

text \<open>
  \<^verbatim>\<open>
  def _run_sweep_benchmark(arm, center_pose_deg, sweep_delta_j1_deg, cycles, speed, acceleration):
      left_pose = _pose_with_j1_offset(center_pose_deg, -abs(sweep_delta_j1_deg))
      right_pose = _pose_with_j1_offset(center_pose_deg, abs(sweep_delta_j1_deg))
      for warmup_pose in (center_pose_deg, left_pose, right_pose, center_pose_deg):
          if not arm.move_joints(warmup_pose, ...):
              return False, "warmup move failed", []
      segment_times = []
      for _ in range(cycles):
          for target_pose in (left_pose, right_pose, center_pose_deg):
              t0 = time.perf_counter()
              ok = arm.move_joints(target_pose, ...)
              elapsed = time.perf_counter() - t0
              if not ok:
                  return False, "sweep move failed", segment_times
              segment_times.append(elapsed)
      return True, "ok", segment_times
  \<close>
  \<^verbatim>\<open>range(cycles)\<close> is empty for a cycle count of 0 or less.
\<close>

definition run_sweep_benchmark ::
  "arm_env \<Rightarrow> real list \<Rightarrow> real \<Rightarrow> int \<Rightarrow> move_log
     \<Rightarrow> py_error + ((bool \<times> string \<times> real list) \<times> move_log)" where
  "run_sweep_benchmark env center_pose_deg sweep_delta_j1_deg cycles mlog =
     (case pose_with_j1_offset center_pose_deg (- \<bar>sweep_delta_j1_deg\<bar>) of
        Inl e \<Rightarrow> Inl e
      | Inr left_pose \<Rightarrow>
     (case pose_with_j1_offset center_pose_deg \<bar>sweep_delta_j1_deg\<bar> of
        Inl e \<Rightarrow> Inl e
      | Inr right_pose \<Rightarrow>
     (case warmup_moves env [center_pose_deg, left_pose, right_pose, center_pose_deg] mlog of
        (warm, mlog1) \<Rightarrow>
          if \<not> warm then Inr ((False, ''warmup move failed'', []), mlog1)
          else
            (case sweep_cycles env (nat cycles) [left_pose, right_pose, center_pose_deg] [] mlog1 of
               (completed, segment_times, mlog2) \<Rightarrow>
                 if completed then Inr ((True, ''ok'', segment_times), mlog2)
                 else Inr ((False, ''sweep move failed'', segment_times), mlog2)))))"

section \<open>Calibration engine: scoring and report\<close>

text \<open>A float field that can hold \<^verbatim>\<open>math.inf\<close>.\<close>

datatype float_val = Finite real | Infinity

record CandidateResult =
  name :: string
  center_pose_deg :: "real list"
  ok :: bool
  reason :: string
  segment_times_sec :: "real list"
  mean_segment_time_sec :: float_val
  std_segment_time_sec :: float_val
  speed_raw :: real
  smoothness_raw :: real
  margin_raw :: real
  total_score :: real

text \<open>
  \<^verbatim>\<open>x or 1.0\<close> on a float: 1.0 when x is zero (falsy), x otherwise.
\<close>

definition or_one :: "real \<Rightarrow> real" where
  "or_one x = (if x = 0 then 1 else x)"

text \<open>
  \<^verbatim>\<open>
  def _score_results(results):
      valid = [r for r in results if r.ok]
      if not valid:
          return
      max_speed = max(r.speed_raw for r in valid) or 1.0
      max_smooth = max(r.smoothness_raw for r in valid) or 1.0
      max_margin = max(r.margin_raw for r in valid) or 1.0
      for r in valid:
          speed_norm = r.speed_raw / max_speed
          smooth_norm = r.smoothness_raw / max_smooth
          margin_norm = r.margin_raw / max_margin
          r.total_score = 0.50 * speed_norm + 0.35 * smooth_norm + 0.15 * margin_norm
  \<close>
  The function mutates the elements of \<^verbatim>\<open>valid\<close>, which are the very objects of
  \<^verbatim>\<open>results\<close>; the model returns the list of results after the call.
\<close>

definition score_results :: "CandidateResult list \<Rightarrow> CandidateResult list" where
  "score_results results =
     (case filter ok results of
        [] \<Rightarrow> results
      | v # vs \<Rightarrow>
          (let max_speed = or_one (fold max (map speed_raw vs) (speed_raw v));
               max_smooth = or_one (fold max (map smoothness_raw vs) (smoothness_raw v));
               max_margin = or_one (fold max (map margin_raw vs) (margin_raw v))
           in map (\<lambda>r. if ok r
                         then r\<lparr>total_score :=
                                  (50 / 100) * (speed_raw r / max_speed)
                                  + (35 / 100) * (smoothness_raw r / max_smooth)
                                  + (15 / 100) * (margin_raw r / max_margin)\<rparr>
                         else r) results))"

text \<open>
  \<^verbatim>\<open>max(valid, key=lambda r: r.total_score)\<close>: the first element whose key no later
  element exceeds.
\<close>

fun max_by_total_score :: "CandidateResult \<Rightarrow> CandidateResult list \<Rightarrow> CandidateResult" where
  "max_by_total_score best [] = best"
| "max_by_total_score best (r # rs) =
     max_by_total_score (if total_score best < total_score r then r else best) rs"

text \<open>\<^verbatim>\<open>statistics.mean\<close> and \<^verbatim>\<open>statistics.pstdev\<close> of a non-empty list.\<close>

definition mean :: "real list \<Rightarrow> real" where
  "mean xs = sum_list xs / real (length xs)"

definition pstdev :: "real list \<Rightarrow> real" where
  "pstdev xs = sqrt (sum_list (map (\<lambda>x. (x - mean xs)\<^sup>2) xs) / real (length xs))"

text \<open>\<^verbatim>\<open>CANDIDATE_CENTERS\<close>, in the insertion order of the dict.\<close>

definition CANDIDATE_CENTERS :: "(string \<times> real list) list" where
  "CANDIDATE_CENTERS =
     [(''center_a'', [0, -20, -35, 0, 100, -45]),
      (''center_b'', [0, -17, -28, 0, 75, -45]),
      (''center_c'', [0, -26, -44, 0, 106, -45]),
      (''center_d'', [0, -18, -52, 0, 110, -45])]"

record calibration_args =
  arg_xarm_ip :: string
  arg_home_joints :: "real list"
  arg_sweep_delta_j1 :: real
  arg_cycles :: int
  arg_speed :: real
  arg_acc :: real
  arg_output_json :: string
  arg_execute :: bool
  arg_move_to_best :: bool

text \<open>
  The body of the loop over the candidates in \<^verbatim>\<open>main\<close>: margin, benchmark, raw
  metrics, and the result record with total score 0.
  \<^verbatim>\<open>
      margin = _candidate_margin(pose, args.sweep_delta_j1)
      ok, reason, segment_times = _run_sweep_benchmark(...)
      if ok and segment_times:
          mean_t = statistics.mean(segment_times)
          std_t = statistics.pstdev(segment_times) if len(segment_times) > 1 else 0.0
          speed_raw = 1.0 / max(mean_t, 1e-6)
          cv = std_t / max(mean_t, 1e-6)
          smooth_raw = 1.0 / max(cv, 1e-6)
      else:
          mean_t = math.inf
          std_t = math.inf
          speed_raw = 0.0
          smooth_raw = 0.0
      results.append(CandidateResult(...))
  \<close>
\<close>

definition evaluate_candidate ::
  "calibration_args \<Rightarrow> arm_env \<Rightarrow> string \<times> real list \<Rightarrow> move_log
     \<Rightarrow> py_error + (CandidateResult \<times> move_log)" where
  "evaluate_candidate args env cand mlog =
     (case cand of (cname, pose) \<Rightarrow>
     (case candidate_margin pose (arg_sweep_delta_j1 args) of
        Inl e \<Rightarrow> Inl e
      | Inr margin \<Rightarrow>
     (case run_sweep_benchmark env pose (arg_sweep_delta_j1 args) (arg_cycles args) mlog of
        Inl e \<Rightarrow> Inl e
      | Inr ((bench_ok, bench_reason, segment_times), mlog') \<Rightarrow>
          (let eps = 1 / 1000000 in
           if bench_ok \<and> segment_times \<noteq> [] then
             (let mean_t = mean segment_times;
                  std_t = (if 1 < length segment_times then pstdev segment_times else 0);
                  speed = 1 / max mean_t eps;
                  cv = std_t / max mean_t eps;
                  smooth = 1 / max cv eps
              in Inr (\<lparr>name = cname, center_pose_deg = pose, ok = bench_ok,
                        reason = bench_reason, segment_times_sec = segment_times,
                        mean_segment_time_sec = Finite mean_t,
                        std_segment_time_sec = Finite std_t,
                        speed_raw = speed, smoothness_raw = smooth, margin_raw = margin,
                        total_score = 0\<rparr>, mlog'))
           else
             Inr (\<lparr>name = cname, center_pose_deg = pose, ok = bench_ok,
                    reason = bench_reason, segment_times_sec = segment_times,
                    mean_segment_time_sec = Infinity, std_segment_time_sec = Infinity,
                    speed_raw = 0, smoothness_raw = 0, margin_raw = margin,
                    total_score = 0\<rparr>, mlog')))))"

fun evaluate_candidates ::
  "calibration_args \<Rightarrow> arm_env \<Rightarrow> (string \<times> real list) list \<Rightarrow> CandidateResult list \<Rightarrow> move_log
     \<Rightarrow> py_error + (CandidateResult list \<times> move_log)" where
  "evaluate_candidates args env [] results mlog = Inr (results, mlog)"
| "evaluate_candidates args env (cand # cands) results mlog =
     (case evaluate_candidate args env cand mlog of
        Inl e \<Rightarrow> Inl e
      | Inr (r, mlog') \<Rightarrow> evaluate_candidates args env cands (results @ [r]) mlog')"

record CalibrationReport =
  report_xarm_ip :: string
  report_sweep_delta_j1_deg :: real
  report_cycles :: int
  report_speed :: real
  report_acc :: real
  best_candidate :: CandidateResult
  all_candidates :: "CandidateResult list"

text \<open>
  What one invocation of the calibration \<^verbatim>\<open>main\<close> leaves behind: the exit code, the
  report written to the output file (if any), the poses commanded, and whether the arm
  was disconnected.
\<close>

record calibration_outcome =
  exit_code :: int
  written_report :: "CalibrationReport option"
  commanded :: move_log
  arm_disconnected :: bool

text \<open>
  The part of \<^verbatim>\<open>main\<close> after the loop over the candidates:
  \<^verbatim>\<open>
      _score_results(results)
      _print_results(results)
      valid = [r for r in results if r.ok]
      if not valid:
          logger.error("No valid candidates completed calibration.")
          return 1
      best_result = max(valid, key=lambda r: r.total_score)
      out_path.write_text(json.dumps({..., "best_candidate": asdict(best_result),
                                      "all_candidates": [asdict(r) for r in results]}, ...))
      if args.move_to_best and best_result is not None:
          if not arm.move_joints(best_result.center_pose_deg, ...):
              return 1
      else:
          arm.move_joints(home_joints, ...)
      return 0
  \<close>
  The \<^verbatim>\<open>finally\<close> clause of \<^verbatim>\<open>main\<close> disconnects the arm on each of these paths.
  \<^verbatim>\<open>_print_results\<close> only prints.
\<close>

definition select_and_report ::
  "calibration_args \<Rightarrow> arm_env \<Rightarrow> CandidateResult list \<Rightarrow> move_log \<Rightarrow> calibration_outcome" where
  "select_and_report args env results0 mlog =
     (let results = score_results results0 in
      case filter ok results of
        [] \<Rightarrow> \<lparr>exit_code = 1, written_report = None, commanded = mlog, arm_disconnected = True\<rparr>
      | v # vs \<Rightarrow>
          (let best_result = max_by_total_score v vs;
               report = \<lparr>report_xarm_ip = arg_xarm_ip args,
                         report_sweep_delta_j1_deg = arg_sweep_delta_j1 args,
                         report_cycles = arg_cycles args,
                         report_speed = arg_speed args,
                         report_acc = arg_acc args,
                         best_candidate = best_result,
                         all_candidates = results\<rparr>
           in if arg_move_to_best args then
                (if \<not> fst (env (length mlog))
                 then \<lparr>exit_code = 1, written_report = Some report,
                        commanded = mlog @ [center_pose_deg best_result], arm_disconnected = True\<rparr>
                 else \<lparr>exit_code = 0, written_report = Some report,
                        commanded = mlog @ [center_pose_deg best_result], arm_disconnected = True\<rparr>)
              else \<lparr>exit_code = 0, written_report = Some report,
                     commanded = mlog @ [arg_home_joints args], arm_disconnected = True\<rparr>))"

text \<open>
  \<^verbatim>\<open>main\<close> of play_center_calibration.py, from the reachability check on (the
  command line is parsed before it, and \<^verbatim>\<open>--home-joints\<close> that do not parse to six
  values end the program with exit code 2 before anything else happens). The answer of
  \<^verbatim>\<open>ping_host\<close> and of \<^verbatim>\<open>arm.connect()\<close> are arguments. An exception raised inside
  the \<^verbatim>\<open>try\<close> block leaves \<^verbatim>\<open>main\<close> after the arm is disconnected: \<open>Inl\<close>.
\<close>

definition calibration_main ::
  "calibration_args \<Rightarrow> bool \<Rightarrow> bool \<Rightarrow> arm_env \<Rightarrow> py_error + calibration_outcome" where
  "calibration_main args ping_ok connect_ok env =
     (if \<not> ping_ok
      then Inr \<lparr>exit_code = 1, written_report = None, commanded = [], arm_disconnected = False\<rparr>
      else if \<not> arg_execute args
      then Inr \<lparr>exit_code = 0, written_report = None, commanded = [], arm_disconnected = False\<rparr>
      else if \<not> connect_ok
      then Inr \<lparr>exit_code = 1, written_report = None, commanded = [], arm_disconnected = False\<rparr>
      else if \<not> fst (env 0)
      then Inr \<lparr>exit_code = 1, written_report = None, commanded = [arg_home_joints args],
                 arm_disconnected = True\<rparr>
      else
        (case evaluate_candidates args env CANDIDATE_CENTERS [] [arg_home_joints args] of
           Inl e \<Rightarrow> Inl e
         | Inr (results, mlog) \<Rightarrow> Inr (select_and_report args env results mlog)))"

text \<open>
  What a raw metric becomes when it is normalised against itself under the guard of
  \<^verbatim>\<open>_score_results\<close>: 0 when it is zero (the divisor is replaced by 1.0), 1 otherwise.
\<close>

definition unit_score :: "real \<Rightarrow> real" where
  "unit_score x = (if x = 0 then 0 else 1)"

text \<open>Two concrete command lines and arm behaviours, used to run the model.\<close>

definition default_args :: calibration_args where
  "default_args =
     \<lparr>arg_xarm_ip = ''192.168.0.203'', arg_home_joints = [0, 0, 0, 0, 90, -45],
      arg_sweep_delta_j1 = 10, arg_cycles = 3, arg_speed = 60, arg_acc = 600,
      arg_output_json = ''play_center_calibration_results.json'',
      arg_execute = True, arg_move_to_best = False\<rparr>"

text \<open>An arm that accepts the first \<open>n\<close> moves and rejects every later one; each
  call takes one second.\<close>

definition arm_accepts_first :: "nat \<Rightarrow> arm_env" where
  "arm_accepts_first n k = (k < n, 1)"

section \<open>Motion orchestrator: actuators and traces\<close>

text \<open>
  The orchestrator talks to two duck-typed actuator objects. The model records every
  call it makes to them, in order, as an event with the arguments of the call.
\<close>

datatype event =
    ArmConnect
  | ArmMoveJoints "real list" real real bool
  | ArmDisconnect
  | HandConnect
  | HandSetAllMotors int real
  | HandMoveSingleMotor int int real
  | HandDisconnect

text \<open>
  A call either returns (a boolean; \<^verbatim>\<open>disconnect\<close> returns nothing and the boolean is
  then ignored) or is cut short by a \<^verbatim>\<open>KeyboardInterrupt\<close> that arrives while it is
  in progress. The same type describes what a function of the orchestrator does: it
  returns a boolean or lets the interrupt escape. An interrupt that arrives between two
  calls takes the same path through the routine as one that arrives at the start of the
  next call.
\<close>

datatype outcome = Returns bool | Interrupt

text \<open>
  The behaviour of the two actuators (and of the operator) during one run is a stream
  of outcomes, one per call made: the outcome of the next call is the stream's entry at
  the number of calls made so far. Any behaviour of the hardware that the single
  thread of the orchestrator can observe is such a stream.
\<close>

type_synonym world = "nat \<Rightarrow> outcome"
type_synonym trace = "event list"

definition call :: "world \<Rightarrow> event \<Rightarrow> trace \<Rightarrow> outcome \<times> trace" where
  "call w e tr = (w (length tr), tr @ [e])"

section \<open>Motion orchestrator: the fully-open reinforcement sequence\<close>

text \<open>
  Step 2 of \<^verbatim>\<open>_force_full_open\<close>:
  \<^verbatim>\<open>
      for finger_idx in finger_indices:
          if not hand.move_single_motor(finger_idx, open_value, hold_seconds=per_finger_hold):
              return False
  \<close>
  \<open>Returns True\<close> stands for the loop running to its end.
\<close>

fun touch_fingers :: "world \<Rightarrow> int \<Rightarrow> real \<Rightarrow> int list \<Rightarrow> trace \<Rightarrow> outcome \<times> trace" where
  "touch_fingers w ov per_finger_hold [] tr = (Returns True, tr)"
| "touch_fingers w ov per_finger_hold (finger_idx # rest) tr =
     (case call w (HandMoveSingleMotor finger_idx ov per_finger_hold) tr of
        (Returns True, tr') \<Rightarrow> touch_fingers w ov per_finger_hold rest tr'
      | (Returns False, tr') \<Rightarrow> (Returns False, tr')
      | (Interrupt, tr') \<Rightarrow> (Interrupt, tr'))"

text \<open>
  \<^verbatim>\<open>
  def _force_full_open(hand, open_value, hold_seconds, finger_indices, logger):
      settle = max(0.20, hold_seconds)
      if not hand.set_all_motors(open_value, hold_seconds=settle):
          return False
      per_finger_hold = max(0.04, hold_seconds * 0.5)
      for finger_idx in finger_indices:
          if not hand.move_single_motor(finger_idx, open_value, hold_seconds=per_finger_hold):
              return False
      return hand.set_all_motors(open_value, hold_seconds=settle)
  \<close>
  The function has the same text in continuous_practice.py and in
  four_finger_note_test.py.
\<close>

definition force_full_open :: "world \<Rightarrow> int \<Rightarrow> real \<Rightarrow> int list \<Rightarrow> trace \<Rightarrow> outcome \<times> trace" where
  "force_full_open w ov hold_seconds fingers tr =
     (let settle = max (20 / 100) hold_seconds in
      case call w (HandSetAllMotors ov settle) tr of
        (Returns True, tr1) \<Rightarrow>
          (let per_finger_hold = max (4 / 100) (hold_seconds * (5 / 10)) in
           case touch_fingers w ov per_finger_hold fingers tr1 of
             (Returns True, tr2) \<Rightarrow> call w (HandSetAllMotors ov settle) tr2
           | (Returns False, tr2) \<Rightarrow> (Returns False, tr2)
           | (Interrupt, tr2) \<Rightarrow> (Interrupt, tr2))
      | (Returns False, tr1) \<Rightarrow> (Returns False, tr1)
      | (Interrupt, tr1) \<Rightarrow> (Interrupt, tr1))"

text \<open>
  The sequence as the specification describes it: an all-motors command to the open
  value, one single-motor command per finger index in order, and the all-motors command
  once more.
\<close>

definition full_open_sequence :: "int \<Rightarrow> real \<Rightarrow> int list \<Rightarrow> event list" where
  "full_open_sequence ov hold_seconds fingers =
     [HandSetAllMotors ov (max (20 / 100) hold_seconds)]
     @ map (\<lambda>finger_idx. HandMoveSingleMotor finger_idx ov (max (4 / 100) (hold_seconds * (5 / 10))))
         fingers
     @ [HandSetAllMotors ov (max (20 / 100) hold_seconds)]"

fun is_all_motors_command :: "event \<Rightarrow> bool" where
  "is_all_motors_command (HandSetAllMotors v h) = True"
| "is_all_motors_command e = False"

fun is_single_motor_command :: "event \<Rightarrow> bool" where
  "is_single_motor_command (HandMoveSingleMotor i v h) = True"
| "is_single_motor_command e = False"

fun is_hand_call :: "event \<Rightarrow> bool" where
  "is_hand_call HandConnect = True"
| "is_hand_call (HandSetAllMotors v h) = True"
| "is_hand_call (HandMoveSingleMotor i v h) = True"
| "is_hand_call HandDisconnect = True"
| "is_hand_call e = False"

section \<open>Motion orchestrator: the routines\<close>

text \<open>The arguments that \<^verbatim>\<open>run_test\<close> and \<^verbatim>\<open>run_continuous_practice\<close> share.\<close>

record routine_config =
  cfg_xarm_ip :: string
  cfg_hand_port :: string
  cfg_hand_slave_id :: int
  cfg_center_joints :: "real list"
  cfg_home_joints :: "real list"
  cfg_finger_indices :: "int list"
  cfg_open_value :: int
  cfg_close_reference :: int
  cfg_down_fraction :: real
  cfg_press_hold :: real
  cfg_release_hold :: real
  cfg_arm_speed :: real
  cfg_arm_acc :: real
  cfg_return_home :: bool

text \<open>
  The inner loop of both routines: press and release each finger in turn.
  \<^verbatim>\<open>
      for finger_idx in finger_indices:
          if not hand.move_single_motor(finger_idx, strike_value, hold_seconds=press_hold):
              return False
          if not hand.move_single_motor(finger_idx, open_value, hold_seconds=release_hold):
              return False
  \<close>
\<close>

fun press_release ::
  "world \<Rightarrow> int \<Rightarrow> int \<Rightarrow> real \<Rightarrow> real \<Rightarrow> int list \<Rightarrow> trace \<Rightarrow> outcome \<times> trace" where
  "press_release w strike ov ph rh [] tr = (Returns True, tr)"
| "press_release w strike ov ph rh (finger_idx # rest) tr =
     (case call w (HandMoveSingleMotor finger_idx strike ph) tr of
        (Returns True, tr1) \<Rightarrow>
          (case call w (HandMoveSingleMotor finger_idx ov rh) tr1 of
             (Returns True, tr2) \<Rightarrow> press_release w strike ov ph rh rest tr2
           | (Returns False, tr2) \<Rightarrow> (Returns False, tr2)
           | (Interrupt, tr2) \<Rightarrow> (Interrupt, tr2))
      | (Returns False, tr1) \<Rightarrow> (Returns False, tr1)
      | (Interrupt, tr1) \<Rightarrow> (Interrupt, tr1))"

text \<open>
  The practice loop. It can run forever (no loop bound, every command accepted), so
  the model spends one unit of fuel per iteration and is \<open>None\<close> when the fuel runs out.
  \<^verbatim>\<open>
      while True:
          if max_loops > 0 and loop_idx >= max_loops:
              break
          loop_idx += 1
          for finger_idx in finger_indices: ...
  \<close>
  \<open>Returns True\<close> stands for leaving the loop by \<^verbatim>\<open>break\<close>.
\<close>

fun practice_loop ::
  "nat \<Rightarrow> world \<Rightarrow> routine_config \<Rightarrow> int \<Rightarrow> int \<Rightarrow> int \<Rightarrow> trace \<Rightarrow> (outcome \<times> trace) option" where
  "practice_loop 0 w cfg max_loops strike loop_idx tr = None"
| "practice_loop (Suc fuel) w cfg max_loops strike loop_idx tr =
     (if 0 < max_loops \<and> max_loops \<le> loop_idx then Some (Returns True, tr)
      else
        (case press_release w strike (cfg_open_value cfg) (cfg_press_hold cfg)
                (cfg_release_hold cfg) (cfg_finger_indices cfg) tr of
           (Returns True, tr') \<Rightarrow> practice_loop fuel w cfg max_loops strike (loop_idx + 1) tr'
         | (Returns False, tr') \<Rightarrow> Some (Returns False, tr')
         | (Interrupt, tr') \<Rightarrow> Some (Interrupt, tr')))"

text \<open>
  The local flags of \<^verbatim>\<open>run_continuous_practice\<close> as they stand when the \<^verbatim>\<open>try\<close>
  block is left.
\<close>

record practice_flags =
  arm_ok :: bool
  hand_ok :: bool
  completed :: bool

text \<open>
  The \<^verbatim>\<open>try\<close> block of \<^verbatim>\<open>run_continuous_practice\<close> (lines 142 to 187): how it is
  left (a \<^verbatim>\<open>return\<close> or an escaping interrupt), the flags, and the trace.
\<close>

definition practice_try ::
  "nat \<Rightarrow> world \<Rightarrow> routine_config \<Rightarrow> int \<Rightarrow> (outcome \<times> practice_flags \<times> trace) option" where
  "practice_try fuel w cfg max_loops =
     (let strike = compute_strike_value (cfg_open_value cfg) (cfg_close_reference cfg)
                     (cfg_down_fraction cfg)
      in
      case call w ArmConnect [] of
        (Interrupt, tr1) \<Rightarrow> Some (Interrupt, \<lparr>arm_ok = False, hand_ok = False, completed = False\<rparr>, tr1)
      | (Returns False, tr1) \<Rightarrow>
          Some (Returns False, \<lparr>arm_ok = False, hand_ok = False, completed = False\<rparr>, tr1)
      | (Returns True, tr1) \<Rightarrow>
     (case call w (ArmMoveJoints (cfg_center_joints cfg) (cfg_arm_speed cfg) (cfg_arm_acc cfg) True) tr1 of
        (Interrupt, tr2) \<Rightarrow> Some (Interrupt, \<lparr>arm_ok = True, hand_ok = False, completed = False\<rparr>, tr2)
      | (Returns False, tr2) \<Rightarrow>
          Some (Returns False, \<lparr>arm_ok = True, hand_ok = False, completed = False\<rparr>, tr2)
      | (Returns True, tr2) \<Rightarrow>
     (case call w HandConnect tr2 of
        (Interrupt, tr3) \<Rightarrow> Some (Interrupt, \<lparr>arm_ok = True, hand_ok = False, completed = False\<rparr>, tr3)
      | (Returns False, tr3) \<Rightarrow>
          Some (Returns False, \<lparr>arm_ok = True, hand_ok = False, completed = False\<rparr>, tr3)
      | (Returns True, tr3) \<Rightarrow>
     (case force_full_open w (cfg_open_value cfg) (max (cfg_press_hold cfg) (cfg_release_hold cfg))
             (cfg_finger_indices cfg) tr3 of
        (Interrupt, tr4) \<Rightarrow> Some (Interrupt, \<lparr>arm_ok = True, hand_ok = True, completed = False\<rparr>, tr4)
      | (Returns False, tr4) \<Rightarrow>
          Some (Returns False, \<lparr>arm_ok = True, hand_ok = True, completed = False\<rparr>, tr4)
      | (Returns True, tr4) \<Rightarrow>
     (case practice_loop fuel w cfg max_loops strike 0 tr4 of
        None \<Rightarrow> None
      | Some (Interrupt, tr5) \<Rightarrow>
          Some (Interrupt, \<lparr>arm_ok = True, hand_ok = True, completed = False\<rparr>, tr5)
      | Some (Returns False, tr5) \<Rightarrow>
          Some (Returns False, \<lparr>arm_ok = True, hand_ok = True, completed = False\<rparr>, tr5)
      | Some (Returns True, tr5) \<Rightarrow>
          Some (Returns True, \<lparr>arm_ok = True, hand_ok = True, completed = True\<rparr>, tr5))))))"

text \<open>
  The \<^verbatim>\<open>finally\<close> block of \<^verbatim>\<open>run_continuous_practice\<close> (lines 193 to 214). The
  results of the calls are ignored; an interrupt during one of them escapes.
  \<^verbatim>\<open>
      if hand_ok:
          _force_full_open(...)
          hand.disconnect()
      if arm_ok:
          if interrupted:
              arm.move_joints(home_joints, ...)
          elif return_home:
              arm.move_joints(home_joints, ...)
          elif not completed:
              arm.move_joints(home_joints, ...)
          arm.disconnect()
  \<close>
\<close>

definition practice_finally ::
  "world \<Rightarrow> routine_config \<Rightarrow> practice_flags \<Rightarrow> bool \<Rightarrow> trace \<Rightarrow> outcome \<times> trace" where
  "practice_finally w cfg flags interrupted tr =
     (let go_home = ArmMoveJoints (cfg_home_joints cfg) (cfg_arm_speed cfg) (cfg_arm_acc cfg) True in
      case (if hand_ok flags
            then (case force_full_open w (cfg_open_value cfg)
                         (max (cfg_press_hold cfg) (cfg_release_hold cfg))
                         (cfg_finger_indices cfg) tr of
                    (Interrupt, tr1) \<Rightarrow> (Interrupt, tr1)
                  | (Returns b, tr1) \<Rightarrow> call w HandDisconnect tr1)
            else (Returns True, tr)) of
        (Interrupt, tr2) \<Rightarrow> (Interrupt, tr2)
      | (Returns b, tr2) \<Rightarrow>
          if arm_ok flags then
            (case (if interrupted then call w go_home tr2
                   else if cfg_return_home cfg then call w go_home tr2
                   else if \<not> completed flags then call w go_home tr2
                   else (Returns True, tr2)) of
               (Interrupt, tr3) \<Rightarrow> (Interrupt, tr3)
             | (Returns b', tr3) \<Rightarrow> call w ArmDisconnect tr3)
          else (Returns True, tr2))"

text \<open>
  \<^verbatim>\<open>run_continuous_practice\<close>: the \<^verbatim>\<open>try\<close> block, the handler
  \<^verbatim>\<open>
      except KeyboardInterrupt:
          interrupted = True
          completed = True
          return True
  \<close>
  and the \<^verbatim>\<open>finally\<close> block. The routine returns the value of the \<^verbatim>\<open>return\<close>
  statement that was reached unless the \<^verbatim>\<open>finally\<close> block is itself interrupted.
  The result is \<open>None\<close> when the fuel does not suffice.
\<close>

definition run_continuous_practice ::
  "nat \<Rightarrow> world \<Rightarrow> routine_config \<Rightarrow> int \<Rightarrow> (outcome \<times> trace) option" where
  "run_continuous_practice fuel w cfg max_loops =
     (case practice_try fuel w cfg max_loops of
        None \<Rightarrow> None
      | Some (left, flags, tr) \<Rightarrow>
          (case left of
             Interrupt \<Rightarrow>
               (case practice_finally w cfg (flags\<lparr>completed := True\<rparr>) True tr of
                  (Interrupt, tr') \<Rightarrow> Some (Interrupt, tr')
                | (Returns b, tr') \<Rightarrow> Some (Returns True, tr'))
           | Returns result \<Rightarrow>
               (case practice_finally w cfg flags False tr of
                  (Interrupt, tr') \<Rightarrow> Some (Interrupt, tr')
                | (Returns b, tr') \<Rightarrow> Some (Returns result, tr'))))"

text \<open>
  The outer loop of \<^verbatim>\<open>run_test\<close>, \<^verbatim>\<open>for loop_idx in range(loops)\<close>.
\<close>

fun note_loops ::
  "nat \<Rightarrow> world \<Rightarrow> routine_config \<Rightarrow> int \<Rightarrow> trace \<Rightarrow> outcome \<times> trace" where
  "note_loops 0 w cfg strike tr = (Returns True, tr)"
| "note_loops (Suc n) w cfg strike tr =
     (case press_release w strike (cfg_open_value cfg) (cfg_press_hold cfg)
             (cfg_release_hold cfg) (cfg_finger_indices cfg) tr of
        (Returns True, tr') \<Rightarrow> note_loops n w cfg strike tr'
      | (Returns False, tr') \<Rightarrow> (Returns False, tr')
      | (Interrupt, tr') \<Rightarrow> (Interrupt, tr'))"

record test_flags =
  t_arm_ok :: bool
  t_hand_ok :: bool
  test_ok :: bool

text \<open>The \<^verbatim>\<open>try\<close> block of \<^verbatim>\<open>run_test\<close> (lines 141 to 194).\<close>

definition test_try :: "world \<Rightarrow> routine_config \<Rightarrow> int \<Rightarrow> outcome \<times> test_flags \<times> trace" where
  "test_try w cfg loops =
     (let strike = compute_strike_value (cfg_open_value cfg) (cfg_close_reference cfg)
                     (cfg_down_fraction cfg)
      in
      case call w ArmConnect [] of
        (Interrupt, tr1) \<Rightarrow> (Interrupt, \<lparr>t_arm_ok = False, t_hand_ok = False, test_ok = False\<rparr>, tr1)
      | (Returns False, tr1) \<Rightarrow>
          (Returns False, \<lparr>t_arm_ok = False, t_hand_ok = False, test_ok = False\<rparr>, tr1)
      | (Returns True, tr1) \<Rightarrow>
     (case call w (ArmMoveJoints (cfg_center_joints cfg) (cfg_arm_speed cfg) (cfg_arm_acc cfg) True) tr1 of
        (Interrupt, tr2) \<Rightarrow> (Interrupt, \<lparr>t_arm_ok = True, t_hand_ok = False, test_ok = False\<rparr>, tr2)
      | (Returns False, tr2) \<Rightarrow>
          (Returns False, \<lparr>t_arm_ok = True, t_hand_ok = False, test_ok = False\<rparr>, tr2)
      | (Returns True, tr2) \<Rightarrow>
     (case call w HandConnect tr2 of
        (Interrupt, tr3) \<Rightarrow> (Interrupt, \<lparr>t_arm_ok = True, t_hand_ok = False, test_ok = False\<rparr>, tr3)
      | (Returns False, tr3) \<Rightarrow>
          (Returns False, \<lparr>t_arm_ok = True, t_hand_ok = False, test_ok = False\<rparr>, tr3)
      | (Returns True, tr3) \<Rightarrow>
     (case force_full_open w (cfg_open_value cfg) (max (cfg_press_hold cfg) (cfg_release_hold cfg))
             (cfg_finger_indices cfg) tr3 of
        (Interrupt, tr4) \<Rightarrow> (Interrupt, \<lparr>t_arm_ok = True, t_hand_ok = True, test_ok = False\<rparr>, tr4)
      | (Returns False, tr4) \<Rightarrow>
          (Returns False, \<lparr>t_arm_ok = True, t_hand_ok = True, test_ok = False\<rparr>, tr4)
      | (Returns True, tr4) \<Rightarrow>
     (case note_loops (nat loops) w cfg strike tr4 of
        (Interrupt, tr5) \<Rightarrow> (Interrupt, \<lparr>t_arm_ok = True, t_hand_ok = True, test_ok = False\<rparr>, tr5)
      | (Returns False, tr5) \<Rightarrow>
          (Returns False, \<lparr>t_arm_ok = True, t_hand_ok = True, test_ok = False\<rparr>, tr5)
      | (Returns True, tr5) \<Rightarrow>
     (case force_full_open w (cfg_open_value cfg) (max (cfg_press_hold cfg) (cfg_release_hold cfg))
             (cfg_finger_indices cfg) tr5 of
        (Interrupt, tr6) \<Rightarrow> (Interrupt, \<lparr>t_arm_ok = True, t_hand_ok = True, test_ok = False\<rparr>, tr6)
      | (Returns False, tr6) \<Rightarrow>
          (Returns False, \<lparr>t_arm_ok = True, t_hand_ok = True, test_ok = False\<rparr>, tr6)
      | (Returns True, tr6) \<Rightarrow>
          (Returns True, \<lparr>t_arm_ok = True, t_hand_ok = True, test_ok = True\<rparr>, tr6)))))))"

text \<open>
  The \<^verbatim>\<open>finally\<close> block of \<^verbatim>\<open>run_test\<close> (lines 195 to 205).
  \<^verbatim>\<open>
      if hand_ok:
          hand.disconnect()
      if arm_ok:
          if return_home:
              arm.move_joints(home_joints, ...)
          elif not test_ok:
              arm.move_joints(home_joints, ...)
          arm.disconnect()
  \<close>
\<close>

definition test_finally :: "world \<Rightarrow> routine_config \<Rightarrow> test_flags \<Rightarrow> trace \<Rightarrow> outcome \<times> trace" where
  "test_finally w cfg flags tr =
     (let go_home = ArmMoveJoints (cfg_home_joints cfg) (cfg_arm_speed cfg) (cfg_arm_acc cfg) True in
      case (if t_hand_ok flags then call w HandDisconnect tr else (Returns True, tr)) of
        (Interrupt, tr2) \<Rightarrow> (Interrupt, tr2)
      | (Returns b, tr2) \<Rightarrow>
          if t_arm_ok flags then
            (case (if cfg_return_home cfg then call w go_home tr2
                   else if \<not> test_ok flags then call w go_home tr2
                   else (Returns True, tr2)) of
               (Interrupt, tr3) \<Rightarrow> (Interrupt, tr3)
             | (Returns b', tr3) \<Rightarrow> call w ArmDisconnect tr3)
          else (Returns True, tr2))"

text \<open>
  \<^verbatim>\<open>run_test\<close> has no handler: an interrupt in the \<^verbatim>\<open>try\<close> block escapes after the
  \<^verbatim>\<open>finally\<close> block has run.
\<close>

definition run_test :: "world \<Rightarrow> routine_config \<Rightarrow> int \<Rightarrow> outcome \<times> trace" where
  "run_test w cfg loops =
     (case test_try w cfg loops of
        (left, flags, tr) \<Rightarrow>
          (case test_finally w cfg flags tr of
             (Interrupt, tr') \<Rightarrow> (Interrupt, tr')
           | (Returns b, tr') \<Rightarrow> (left, tr')))"

text \<open>Concrete configurations and worlds, used to run the model.\<close>

definition default_config :: routine_config where
  "default_config =
     \<lparr>cfg_xarm_ip = ''192.168.0.203'', cfg_hand_port = ''/dev/ttyUSB0'', cfg_hand_slave_id = 1,
      cfg_center_joints = [0, -17, -28, 0, 75, -45], cfg_home_joints = [0, 0, 0, 0, 90, -45],
      cfg_finger_indices = [3, 2, 1, 0], cfg_open_value = 1000, cfg_close_reference = 120,
      cfg_down_fraction = 4 / 10, cfg_press_hold = 5 / 100, cfg_release_hold = 5 / 100,
      cfg_arm_speed = 80, cfg_arm_acc = 800, cfg_return_home = False\<rparr>"

text \<open>Every call returns true, except that call number \<open>n\<close> returns false.\<close>

definition rejects_at :: "nat \<Rightarrow> world" where
  "rejects_at n k = (if k = n then Returns False else Returns True)"

text \<open>Every call returns true, except that call number \<open>n\<close> is interrupted.\<close>

definition interrupted_at :: "nat \<Rightarrow> world" where
  "interrupted_at n k = (if k = n then Interrupt else Returns True)"

section \<open>Hand driver: register writes\<close>

text \<open>
  \<^verbatim>\<open>InspireHandDriver\<close> of hand_modbus_driver.py. The state of a driver object is its
  \<^verbatim>\<open>instrument\<close> attribute (set by \<^verbatim>\<open>connect\<close>, \<^verbatim>\<open>None\<close> before and after) and, for the
  purpose of the model, the list of the calls of \<^verbatim>\<open>instrument.write_registers\<close> made so
  far: start address, values, and whether the call completed (true) or raised an
  exception (false).
\<close>

record write_attempt =
  address :: int
  register_values :: "int list"
  completed_ok :: bool

record hand_driver =
  instrument_set :: bool
  attempts :: "write_attempt list"

text \<open>
  The serial bus is external: the answer to the next call of \<^verbatim>\<open>write_registers\<close>
  (it completes, or it raises) is the entry of a stream at the number of calls made so
  far.
\<close>

type_synonym bus = "nat \<Rightarrow> bool"

definition ANGLE_SET_BASE_ADDR :: int where "ANGLE_SET_BASE_ADDR = 1486"
definition MOTOR_COUNT :: int where "MOTOR_COUNT = 6"
definition NO_ACTION_VALUE :: int where "NO_ACTION_VALUE = 65535"

text \<open>
  \<^verbatim>\<open>
  def _address_candidates(base_addr):
      if base_addr % 2 == 0:
          return base_addr, base_addr // 2
      return base_addr, base_addr
  \<close>
\<close>

definition address_candidates :: "int \<Rightarrow> int list" where
  "address_candidates base_addr =
     (if base_addr mod 2 = 0 then [base_addr, base_addr div 2] else [base_addr, base_addr])"

text \<open>
  The loop of \<^verbatim>\<open>_write_registers_with_fallback\<close>:
  \<^verbatim>\<open>
      for candidate in self._address_candidates(base_addr):
          try:
              self.instrument.write_registers(candidate, normalized)
              return True
          except Exception as exc:
              LOGGER.debug(...)
      return False
  \<close>
\<close>

fun try_candidates :: "bus \<Rightarrow> int list \<Rightarrow> int list \<Rightarrow> hand_driver \<Rightarrow> bool \<times> hand_driver" where
  "try_candidates b [] normalized d = (False, d)"
| "try_candidates b (candidate # rest) normalized d =
     (if b (length (attempts d))
      then (True, d\<lparr>attempts := attempts d
                      @ [\<lparr>address = candidate, register_values = normalized, completed_ok = True\<rparr>]\<rparr>)
      else try_candidates b rest normalized
             (d\<lparr>attempts := attempts d
                   @ [\<lparr>address = candidate, register_values = normalized, completed_ok = False\<rparr>]\<rparr>))"

text \<open>
  \<^verbatim>\<open>
  def _write_registers_with_fallback(self, base_addr, values):
      if self.instrument is None:
          return False
      normalized = [int(v) & 0xFFFF for v in values]
      for candidate in ...
  \<close>
\<close>

definition write_registers_with_fallback ::
  "bus \<Rightarrow> int \<Rightarrow> int list \<Rightarrow> hand_driver \<Rightarrow> bool \<times> hand_driver" where
  "write_registers_with_fallback b base_addr vals d =
     (if \<not> instrument_set d then (False, d)
      else (let normalized = map (\<lambda>v. v AND 65535) vals
            in try_candidates b (address_candidates base_addr) normalized d))"

text \<open>
  \<^verbatim>\<open>
  def set_motor_targets(self, motor_targets):
      if len(motor_targets) != self.MOTOR_COUNT:
          return False
      return self._write_registers_with_fallback(self.ANGLE_SET_BASE_ADDR, motor_targets)
  \<close>
\<close>

definition set_motor_targets :: "bus \<Rightarrow> int list \<Rightarrow> hand_driver \<Rightarrow> bool \<times> hand_driver" where
  "set_motor_targets b motor_targets d =
     (if int (length motor_targets) \<noteq> MOTOR_COUNT then (False, d)
      else write_registers_with_fallback b ANGLE_SET_BASE_ADDR motor_targets d)"

text \<open>
  \<^verbatim>\<open>
  def move_single_motor(self, motor_index, target_value, hold_seconds=0.25,
                        no_action_value=NO_ACTION_VALUE):
      if motor_index < 0 or motor_index >= self.MOTOR_COUNT:
          return False
      cmd = [int(no_action_value) & 0xFFFF] * self.MOTOR_COUNT
      cmd[motor_index] = int(target_value) & 0xFFFF
      ok = self.set_motor_targets(cmd)
      if not ok:
          return False
      time.sleep(max(0.0, hold_seconds))
      return True
  \<close>
  The sleep changes nothing in the state of the model.
\<close>

definition move_single_motor ::
  "bus \<Rightarrow> int \<Rightarrow> int \<Rightarrow> real \<Rightarrow> int \<Rightarrow> hand_driver \<Rightarrow> bool \<times> hand_driver" where
  "move_single_motor b motor_index target_value hold_seconds no_action_value d =
     (if motor_index < 0 \<or> MOTOR_COUNT \<le> motor_index then (False, d)
      else (let cmd = replicate (nat MOTOR_COUNT) (no_action_value AND 65535);
                cmd' = cmd[nat motor_index := target_value AND 65535]
            in case set_motor_targets b cmd' d of
                 (False, d') \<Rightarrow> (False, d')
               | (True, d') \<Rightarrow> (True, d')))"

text \<open>The combined six-slot command of the claim: the masked target in one slot, the
  no-action sentinel in the others.\<close>

definition single_motor_command :: "int \<Rightarrow> int \<Rightarrow> int list" where
  "single_motor_command motor_index target_value =
     (replicate 6 65535)[nat motor_index := target_value AND 65535]"

text \<open>A driver that was never connected, and buses that reject the first \<open>n\<close> writes.\<close>

definition fresh_driver :: hand_driver where
  "fresh_driver = \<lparr>instrument_set = False, attempts = []\<rparr>"

definition connected_driver :: hand_driver where
  "connected_driver = \<lparr>instrument_set = True, attempts = []\<rparr>"

definition bus_rejects_first :: "nat \<Rightarrow> bus" where
  "bus_rejects_first n k = (n \<le> k)"

section \<open>Command-line parsing of poses and finger indices\<close>

text \<open>
  A Python string is modelled as a list of characters with code points below 256.
  \<^verbatim>\<open>str.strip()\<close> removes leading and trailing white space; among these characters
  the white space ones are tab, line feed, vertical tab, form feed, carriage return, the
  four separators 28 to 31, the blank, and the code points 133 and 160.
\<close>

definition is_space :: "char \<Rightarrow> bool" where
  "is_space c = ((of_char c :: nat) \<in> {9, 10, 11, 12, 13, 28, 29, 30, 31, 32, 133, 160})"

definition strip :: "string \<Rightarrow> string" where
  "strip s = rev (dropWhile is_space (rev (dropWhile is_space s)))"

text \<open>\<^verbatim>\<open>text.split(",")\<close>: the fields between the commas, empty ones included.\<close>

fun split_comma :: "string \<Rightarrow> string list" where
  "split_comma [] = [[]]"
| "split_comma (c # cs) =
     (if c = CHR '','' then [] # split_comma cs
      else (case split_comma cs of
              [] \<Rightarrow> [[c]]
            | p # ps \<Rightarrow> (c # p) # ps))"

text \<open>
  \<^verbatim>\<open>parts = [p.strip() for p in text.split(",") if p.strip()]\<close>, the first line of both
  parsers.
\<close>

definition nonblank_fields :: "string \<Rightarrow> string list" where
  "nonblank_fields text = filter (\<lambda>p. p \<noteq> []) (map strip (split_comma text))"

text \<open>
  The literals that the builtins \<^verbatim>\<open>int\<close> and \<^verbatim>\<open>float\<close> accept, after the language
  reference: a digit part is a digit followed by digits, each optionally preceded by
  one underscore.
\<close>

definition digit_of :: "char \<Rightarrow> nat option" where
  "digit_of c =
     (let n = (of_char c :: nat) in if 48 \<le> n \<and> n \<le> 57 then Some (n - 48) else None)"

fun more_digits :: "string \<Rightarrow> nat list \<times> string" where
  "more_digits [] = ([], [])"
| "more_digits [c] = (case digit_of c of Some d \<Rightarrow> ([d], []) | None \<Rightarrow> ([], [c]))"
| "more_digits (c # c' # cs) =
     (case digit_of c of
        Some d \<Rightarrow> (case more_digits (c' # cs) of (ds, r) \<Rightarrow> (d # ds, r))
      | None \<Rightarrow>
          if c = CHR ''_'' then
            (case digit_of c' of
               Some d' \<Rightarrow> (case more_digits cs of (ds, r) \<Rightarrow> (d' # ds, r))
             | None \<Rightarrow> ([], c # c' # cs))
          else ([], c # c' # cs))"

definition digitpart :: "string \<Rightarrow> (nat list \<times> string) option" where
  "digitpart s =
     (case s of
        [] \<Rightarrow> None
      | c # cs \<Rightarrow>
          (case digit_of c of
             None \<Rightarrow> None
           | Some d \<Rightarrow> (case more_digits cs of (ds, r) \<Rightarrow> Some (d # ds, r))))"

definition decimal_value :: "nat list \<Rightarrow> nat" where
  "decimal_value ds = foldl (\<lambda>a d. 10 * a + d) 0 ds"

definition split_sign :: "string \<Rightarrow> bool \<times> string" where
  "split_sign s =
     (case s of
        [] \<Rightarrow> (False, [])
      | c # cs \<Rightarrow>
          if c = CHR ''-'' then (True, cs)
          else if c = CHR ''+'' then (False, cs)
          else (False, c # cs))"

definition signed_digits :: "string \<Rightarrow> int option" where
  "signed_digits s =
     (case split_sign s of (negative, body) \<Rightarrow>
        (case digitpart body of
           None \<Rightarrow> None
         | Some (ds, r) \<Rightarrow>
             if r = [] then Some (if negative then - int (decimal_value ds) else int (decimal_value ds))
             else None))"

text \<open>
  \<^verbatim>\<open>int(p)\<close> for a string: surrounding white space is ignored, then an optional sign
  and a digit part; anything else raises ValueError (\<open>None\<close>).
\<close>

definition py_int :: "string \<Rightarrow> int option" where
  "py_int text = signed_digits (strip text)"

datatype py_float = Float real | PosInf | NegInf | NaN

text \<open>Lower case of an ASCII capital letter (code points 65 to 90): the letter 32
  places further, that is, with bit 5 set.\<close>

definition to_lower :: "char \<Rightarrow> char" where
  "to_lower c =
     (let n = (of_char c :: nat) in
      if 65 \<le> n \<and> n \<le> 90
      then (case c of Char b0 b1 b2 b3 b4 b5 b6 b7 \<Rightarrow> Char b0 b1 b2 b3 b4 True b6 b7)
      else c)"

definition number_part :: "string \<Rightarrow> (nat list \<times> nat list \<times> string) option" where
  "number_part s =
     (case digitpart s of
        Some (ip, r) \<Rightarrow>
          (case r of
             [] \<Rightarrow> Some (ip, [], [])
           | c # r' \<Rightarrow>
               if c = CHR ''.'' then
                 (case digitpart r' of
                    Some (fp, r'') \<Rightarrow> Some (ip, fp, r'')
                  | None \<Rightarrow> Some (ip, [], r'))
               else Some (ip, [], c # r'))
      | None \<Rightarrow>
          (case s of
             [] \<Rightarrow> None
           | c # r' \<Rightarrow>
               if c = CHR ''.'' then
                 (case digitpart r' of
                    Some (fp, r'') \<Rightarrow> Some ([], fp, r'')
                  | None \<Rightarrow> None)
               else None))"

definition exponent_part :: "string \<Rightarrow> int option" where
  "exponent_part s =
     (case s of
        [] \<Rightarrow> Some 0
      | c # cs \<Rightarrow> if c = CHR ''e'' \<or> c = CHR ''E'' then signed_digits cs else None)"

definition scale10 :: "real \<Rightarrow> int \<Rightarrow> real" where
  "scale10 m e = (if 0 \<le> e then m * 10 ^ nat e else m / 10 ^ nat (- e))"

text \<open>
  \<^verbatim>\<open>float(p)\<close> for a string: surrounding white space is ignored, then an optional
  sign and either \<^verbatim>\<open>inf\<close>, \<^verbatim>\<open>infinity\<close> or \<^verbatim>\<open>nan\<close> in any letter case, or a decimal
  number with an optional exponent. The value of a number is its exact decimal value.
\<close>

definition py_float_of :: "string \<Rightarrow> py_float option" where
  "py_float_of text =
     (case split_sign (strip text) of (negative, body) \<Rightarrow>
        (let word = map to_lower body in
         if word = ''inf'' \<or> word = ''infinity'' then Some (if negative then NegInf else PosInf)
         else if word = ''nan'' then Some NaN
         else
           (case number_part body of
              None \<Rightarrow> None
            | Some (ip, fp, r) \<Rightarrow>
                (case exponent_part r of
                   None \<Rightarrow> None
                 | Some e \<Rightarrow>
                     (let v = scale10 (real (decimal_value (ip @ fp))) (e - int (length fp))
                      in Some (Float (if negative then - v else v)))))))"

text \<open>
  \<^verbatim>\<open>
  def _parse_joint_targets(text):
      parts = [p.strip() for p in text.split(",") if p.strip()]
      if len(parts) != 6:
          raise ValueError(f"Expected 6 comma-separated joint values, got {len(parts)}")
      return [float(p) for p in parts]
  \<close>
\<close>

definition parse_joint_targets :: "string \<Rightarrow> py_error + py_float list" where
  "parse_joint_targets text =
     (let parts = nonblank_fields text in
      if length parts \<noteq> 6 then Inl ValueError
      else (case those (map py_float_of parts) of
              None \<Rightarrow> Inl ValueError
            | Some targets \<Rightarrow> Inr targets))"

text \<open>
  \<^verbatim>\<open>
  def _parse_finger_indices(text):
      parts = [p.strip() for p in text.split(",") if p.strip()]
      if len(parts) != 4:
          raise ValueError("Expected exactly 4 comma-separated finger motor indices (no thumb).")
      values = [int(p) for p in parts]
      if any(v < 0 or v > 5 for v in values):
          raise ValueError("Finger indices must be between 0 and 5.")
      return values
  \<close>
\<close>

definition parse_finger_indices :: "string \<Rightarrow> py_error + int list" where
  "parse_finger_indices text =
     (let parts = nonblank_fields text in
      if length parts \<noteq> 4 then Inl ValueError
      else (case those (map py_int parts) of
              None \<Rightarrow> Inl ValueError
            | Some vals \<Rightarrow>
                if list_ex (\<lambda>v. v < 0 \<or> 5 < v) vals then Inl ValueError
                else Inr vals))"

text \<open>\<^verbatim>\<open>",".join(parts)\<close>, to build inputs from their fields.\<close>

fun comma_join :: "string list \<Rightarrow> string" where
  "comma_join [] = []"
| "comma_join [p] = p"
| "comma_join (p # q # ps) = p @ CHR '','' # comma_join (q # ps)"

text \<open>A field as a careful user writes it: not empty, no comma inside, no white space
  around it.\<close>

definition clean_field :: "string \<Rightarrow> bool" where
  "clean_field p = (p \<noteq> [] \<and> CHR '','' \<notin> set p \<and> strip p = p)"

text \<open>A field that \<^verbatim>\<open>int\<close> reads as an integer between 0 and 5, and a field that
  \<^verbatim>\<open>float\<close> reads as a number.\<close>

definition finger_field :: "string \<Rightarrow> bool" where
  "finger_field p = (case py_int p of None \<Rightarrow> False | Some v \<Rightarrow> 0 \<le> v \<and> v \<le> 5)"

definition float_field :: "string \<Rightarrow> bool" where
  "float_field p = (case py_float_of p of None \<Rightarrow> False | Some x \<Rightarrow> True)"

section \<open>Properties of the strike value\<close>

lemma py_round_of_int: "py_round (of_int n) = n"
  by (simp add: py_round_def)

lemma py_round_nearest: "\<bar>of_int (py_round x) - x\<bar> \<le> 1 / 2"
  unfolding py_round_def Let_def by (auto simp: abs_if) linarith+

lemma code_clamp_is_clamp01: "max 0 (min 1 d) = clamp01 d"
  by (simp add: clamp01_def max_def min_def)



subsection \<open>Rounding to binary64\<close>

lemma two_powi_less_exp: "(2::real) powi m < 2 powi n \<Longrightarrow> m < n"
  using power_int_increasing [of n m "2::real"] by (cases "m < n") auto

lemma two_powi_le_exp: "(2::real) powi m \<le> 2 powi n \<Longrightarrow> m \<le> n"
  using power_int_strict_increasing [of n m "2::real"] by (cases "m \<le> n") auto

lemma exp_up_spec:
  "e \<le> 1024 \<Longrightarrow> 2 powi e \<le> a \<Longrightarrow>
     e \<le> exp_up e a \<and> exp_up e a \<le> 1024 \<and> 2 powi (exp_up e a) \<le> a
     \<and> (a < 2 powi (exp_up e a + 1) \<or> exp_up e a = 1024)"
proof (induction e a rule: exp_up.induct)
  case (1 e a)
  show ?case
  proof (cases "1024 \<le> e \<or> a < 2 powi (e + 1)")
    case True
    with "1.prems" show ?thesis by (subst (1 2 3 4 5) exp_up.simps) auto
  next
    case False
    then have "e + 1 \<le> 1024" "2 powi (e + 1) \<le> a" by simp_all
    from "1.IH" [OF False this] have
      "e + 1 \<le> exp_up (e + 1) a \<and> exp_up (e + 1) a \<le> 1024 \<and> 2 powi (exp_up (e + 1) a) \<le> a
       \<and> (a < 2 powi (exp_up (e + 1) a + 1) \<or> exp_up (e + 1) a = 1024)" .
    moreover have "exp_up e a = exp_up (e + 1) a"
      using False by (subst exp_up.simps) simp
    ultimately show ?thesis by simp
  qed
qed

lemma exp_down_spec:
  "- 1022 \<le> e \<Longrightarrow> a < 2 powi (e + 1) \<Longrightarrow>
     - 1022 \<le> exp_down e a \<and> exp_down e a \<le> e \<and> a < 2 powi (exp_down e a + 1)
     \<and> (2 powi (exp_down e a) \<le> a \<or> exp_down e a = - 1022)"
proof (induction e a rule: exp_down.induct)
  case (1 e a)
  show ?case
  proof (cases "e \<le> - 1022 \<or> 2 powi e \<le> a")
    case True
    with "1.prems" show ?thesis by (subst (1 2 3 4 5) exp_down.simps) auto
  next
    case False
    then have "- 1022 \<le> e - 1" "a < 2 powi (e - 1 + 1)" by simp_all
    from "1.IH" [OF False this] have
      "- 1022 \<le> exp_down (e - 1) a \<and> exp_down (e - 1) a \<le> e - 1
       \<and> a < 2 powi (exp_down (e - 1) a + 1)
       \<and> (2 powi (exp_down (e - 1) a) \<le> a \<or> exp_down (e - 1) a = - 1022)" .
    moreover have "exp_down e a = exp_down (e - 1) a"
      using False by (subst exp_down.simps) simp
    ultimately show ?thesis by simp
  qed
qed

lemma binade_lower: "1 \<le> a \<Longrightarrow> 0 \<le> binade a \<and> 2 powi (binade a) \<le> a"
  using exp_up_spec [of 0 a] by (simp add: binade_def)

lemma binade_below:
  assumes "a < 2 powi k" and "- 1022 < k"
  shows "binade a < k"
proof (cases "1 \<le> a")
  case True
  from binade_lower [OF True] assms(1) have "(2::real) powi (binade a) < 2 powi k" by simp
  then show ?thesis by (rule two_powi_less_exp)
next
  case False
  from exp_down_spec [of "- 1" a] False
  have d: "2 powi (binade a) \<le> a \<or> binade a = - 1022"
    by (simp add: binade_def)
  show ?thesis
  proof (cases "binade a = - 1022")
    case True
    with assms(2) show ?thesis by simp
  next
    case False
    with d assms(1) have "(2::real) powi (binade a) < 2 powi k" by simp
    then show ?thesis by (rule two_powi_less_exp)
  qed
qed

lemma round_to_double_error:
  "\<bar>round_to_double x - x\<bar> \<le> 2 powi (binade \<bar>x\<bar> - 53)"
proof -
  let ?q = "(2::real) powi (binade \<bar>x\<bar> - 52)"
  have q: "0 < ?q" by simp
  have "round_to_double x - x = (of_int (py_round (x / ?q)) - x / ?q) * ?q"
    using q by (simp add: round_to_double_def Let_def algebra_simps)
  then have "\<bar>round_to_double x - x\<bar> = \<bar>of_int (py_round (x / ?q)) - x / ?q\<bar> * ?q"
    using q by (simp add: abs_mult)
  also have "\<dots> \<le> (1 / 2) * ?q"
    using py_round_nearest [of "x / ?q"] q by (intro mult_right_mono) simp_all
  also have "\<dots> = 2 powi (binade \<bar>x\<bar> - 53)"
    using power_int_add [of "2::real" "binade \<bar>x\<bar> - 53" 1] by simp
  finally show ?thesis .
qed

lemma round_to_double_scaled_int:
  "round_to_double x = x" if "x / 2 powi (binade \<bar>x\<bar> - 52) = of_int k"
proof -
  let ?q = "(2::real) powi (binade \<bar>x\<bar> - 52)"
  have q: "0 < ?q" by simp
  from that have "round_to_double x = of_int k * ?q"
    by (simp add: round_to_double_def Let_def py_round_of_int)
  also from that q have "\<dots> = x" by (simp add: field_simps)
  finally show ?thesis .
qed

lemma round_to_double_int:
  assumes "\<bar>n\<bar> \<le> 2 ^ 53"
  shows "round_to_double (of_int n) = of_int n"
proof (cases "n = 0")
  case True
  then show ?thesis by (simp add: round_to_double_def Let_def py_round_def)
next
  case False
  let ?a = "\<bar>of_int n :: real\<bar>"
  let ?b = "binade ?a"
  from False have one: "1 \<le> ?a" by simp
  from binade_lower [OF one] have b0: "0 \<le> ?b" and low: "2 powi ?b \<le> ?a" by simp_all
  from assms have "?a \<le> 2 ^ 53"
    by (metis of_int_abs of_int_le_iff of_int_numeral of_int_power)
  then have up: "?a \<le> 2 powi 53" by simp
  from low up have "(2::real) powi ?b \<le> 2 powi 53" by simp
  then have b53: "?b \<le> 53" by (rule two_powi_le_exp)
  show ?thesis
  proof (cases "?b = 53")
    case True
    with low up have a: "?a = 2 ^ 53" by simp
    then have "\<bar>n\<bar> = 2 ^ 53"
      by (metis of_int_abs of_int_eq_iff of_int_numeral of_int_power)
    then consider "n = 2 ^ 53" | "n = - (2 ^ 53)" by (auto simp: abs_if split: if_splits)
    note cases_n = this
    have q: "(2::real) powi (?b - 52) = 2" by (simp only: True) simp
    from cases_n show ?thesis
    proof cases
      case 1
      then have "(of_int n :: real) / 2 = of_int (2 ^ 52)" by simp
      then have "(of_int n :: real) / 2 powi (?b - 52) = of_int (2 ^ 52)" by (simp only: q)
      then show ?thesis by (rule round_to_double_scaled_int)
    next
      case 2
      then have "(of_int n :: real) / 2 = of_int (- (2 ^ 52))" by simp
      then have "(of_int n :: real) / 2 powi (?b - 52) = of_int (- (2 ^ 52))" by (simp only: q)
      then show ?thesis by (rule round_to_double_scaled_int)
    qed
  next
    case False
    with b53 have le: "?b \<le> 52" by simp
    have "(2::real) powi (?b - 52) = 1 / 2 ^ nat (52 - ?b)"
      using le by (simp add: power_int_def field_simps)
    then have "(of_int n :: real) / 2 powi (?b - 52) = of_int (n * 2 ^ nat (52 - ?b))"
      by simp
    then show ?thesis by (rule round_to_double_scaled_int)
  qed
qed

lemma float_of_int_exact: "\<bar>n\<bar> \<le> 2 ^ 53 \<Longrightarrow> float_of_int n = of_int n"
  by (simp add: float_of_int_def round_to_double_int)

lemma round_to_double_zero: "round_to_double 0 = 0"
  by (simp add: round_to_double_def Let_def py_round_def)

lemmas rd_eval = round_to_double_def binade_def exp_up.simps exp_down.simps py_round_def Let_def

lemma round_to_double_near:
  assumes "\<bar>x\<bar> < 2 powi k" and "- 1022 < k"
  shows "\<bar>round_to_double x - x\<bar> \<le> 2 powi (k - 54)"
proof -
  from binade_below [OF assms] have "binade \<bar>x\<bar> - 53 \<le> k - 54" by simp
  then have "(2::real) powi (binade \<bar>x\<bar> - 53) \<le> 2 powi (k - 54)"
    by (intro power_int_increasing) simp_all
  with round_to_double_error [of x] show ?thesis by linarith
qed

lemma clamp01_range: "0 \<le> clamp01 d \<and> clamp01 d \<le> 1"
  by (simp add: clamp01_def)

lemma scaled_abs_le:
  fixes a c :: real
  assumes "0 \<le> c" and "c \<le> 1"
  shows "\<bar>a * c\<bar> \<le> \<bar>a\<bar>"
proof -
  have "\<bar>a * c\<bar> = \<bar>a\<bar> * c" using assms by (simp add: abs_mult)
  also have "\<dots> \<le> \<bar>a\<bar> * 1" using assms by (intro mult_left_mono) simp_all
  finally show ?thesis by simp
qed

lemma of_int_abs_le:
  fixes n :: int
  assumes "\<bar>n\<bar> \<le> 2 ^ k"
  shows "\<bar>of_int n :: real\<bar> \<le> 2 ^ k"
proof -
  from assms have "(of_int \<bar>n\<bar> :: real) \<le> of_int (2 ^ k)" by (simp only: of_int_le_iff)
  then show ?thesis by simp
qed

lemma strike_float_closed:
  assumes "\<bar>ov\<bar> \<le> 2 ^ 53"
  shows "strike_float ov cr 0 = of_int ov"
  using assms by (simp add: strike_float_def float_of_int_exact round_to_double_zero round_to_double_int)

lemma strike_float_open:
  assumes "\<bar>ov\<bar> \<le> 2 ^ 53" and "\<bar>cr\<bar> \<le> 2 ^ 53" and "\<bar>cr - ov\<bar> \<le> 2 ^ 53"
  shows "strike_float ov cr 1 = of_int cr"
proof -
  have fo: "float_of_int ov = of_int ov" using assms(1) by (rule float_of_int_exact)
  have fd: "float_of_int (cr - ov) = of_int (cr - ov)" using assms(3) by (rule float_of_int_exact)
  have p: "round_to_double (of_int (cr - ov) * 1) = of_int (cr - ov)"
    using round_to_double_int [OF assms(3)] by (simp only: mult_1_right)
  have s: "(of_int ov :: real) + of_int (cr - ov) = of_int cr" by simp
  show ?thesis
    unfolding strike_float_def fo fd p s using assms(2) by (rule round_to_double_int)
qed

lemma strike_float_accuracy:
  assumes ov: "\<bar>ov\<bar> \<le> 2 ^ 31" and cr: "\<bar>cr\<bar> \<le> 2 ^ 31" and c: "0 \<le> c" "c \<le> 1"
  shows "\<bar>strike_float ov cr c - (of_int ov + of_int (cr - ov) * c)\<bar> \<le> 1 / 2 ^ 20"
proof -
  let ?x = "(of_int (cr - ov) :: real) * c"
  let ?s = "(of_int ov :: real) + round_to_double ?x"
  from ov cr have diff: "\<bar>cr - ov\<bar> \<le> 2 ^ 32" by simp
  from ov have ov53: "\<bar>ov\<bar> \<le> 2 ^ 53" by simp
  from diff have diff53: "\<bar>cr - ov\<bar> \<le> 2 ^ 53" by simp
  have sf: "strike_float ov cr c = round_to_double ?s"
    using ov53 diff53 by (simp add: strike_float_def float_of_int_exact)
  have "\<bar>?x\<bar> \<le> \<bar>of_int (cr - ov) :: real\<bar>" using c by (rule scaled_abs_le)
  also have "\<dots> \<le> 2 ^ 32" using diff by (rule of_int_abs_le)
  finally have x32: "\<bar>?x\<bar> \<le> 2 ^ 32" .
  then have "\<bar>?x\<bar> < 2 powi 33" by simp
  from round_to_double_near [OF this] have e1: "\<bar>round_to_double ?x - ?x\<bar> \<le> 2 powi (- 21)" by simp
  have p21: "(2::real) powi (- 21) = 1 / 2 ^ 21" by (simp add: power_int_minus field_simps)
  have ovr: "\<bar>of_int ov :: real\<bar> \<le> 2 ^ 31" using ov by (rule of_int_abs_le)
  have "\<bar>?s\<bar> \<le> \<bar>of_int ov :: real\<bar> + \<bar>?x\<bar> + \<bar>round_to_double ?x - ?x\<bar>" by linarith
  also have "\<dots> \<le> 2 ^ 31 + 2 ^ 32 + 1 / 2 ^ 21" using ovr x32 e1 p21 by linarith
  also have "\<dots> < 2 powi 33" by simp
  finally have "\<bar>?s\<bar> < 2 powi 33" .
  from round_to_double_near [OF this] have e2: "\<bar>round_to_double ?s - ?s\<bar> \<le> 2 powi (- 21)" by simp
  have "\<bar>round_to_double ?s - (of_int ov + ?x)\<bar> \<le> \<bar>round_to_double ?s - ?s\<bar> + \<bar>round_to_double ?x - ?x\<bar>"
    by linarith
  also have "\<dots> \<le> 1 / 2 ^ 21 + 1 / 2 ^ 21" using e1 e2 p21 by linarith
  also have "\<dots> = 1 / 2 ^ 20" by simp
  finally show ?thesis by (simp only: sf)
qed

lemma below_overflow:
  fixes x :: real
  assumes "\<bar>x\<bar> \<le> 2 ^ 56"
  shows "\<bar>x\<bar> < 2 powi 1024"
proof -
  have "(2::real) ^ 56 < 2 powi 1024" by simp
  with assms show ?thesis by linarith
qed

lemma strike_value_returns:
  assumes ov: "\<bar>ov\<bar> \<le> 2 ^ 53" and cr: "\<bar>cr\<bar> \<le> 2 ^ 53"
  shows "\<not> strike_value_overflows ov cr d"
proof -
  let ?c = "max 0 (min 1 d) :: real"
  have c: "0 \<le> ?c" "?c \<le> 1" by simp_all
  let ?f = "float_of_int (cr - ov)"
  let ?x = "?f * ?c"
  let ?s = "(of_int ov :: real) + round_to_double ?x"
  have ovr: "\<bar>of_int ov :: real\<bar> \<le> 2 ^ 53" using ov by (rule of_int_abs_le)
  have fo: "float_of_int ov = of_int ov" using ov by (rule float_of_int_exact)
  from ov cr have "\<bar>cr - ov\<bar> \<le> 2 ^ 54" by simp
  then have dr: "\<bar>of_int (cr - ov) :: real\<bar> \<le> 2 ^ 54" by (rule of_int_abs_le)
  then have "\<bar>of_int (cr - ov) :: real\<bar> < 2 powi 55" by simp
  from round_to_double_near [OF this]
  have "\<bar>round_to_double (of_int (cr - ov)) - of_int (cr - ov)\<bar> \<le> (2::real)" by simp
  with dr have f: "\<bar>?f\<bar> \<le> 2 ^ 54 + 2" unfolding float_of_int_def by linarith
  have "\<bar>?x\<bar> \<le> \<bar>?f\<bar>" using c by (rule scaled_abs_le)
  with f have x: "\<bar>?x\<bar> \<le> 2 ^ 54 + 2" by linarith
  then have "\<bar>?x\<bar> < 2 powi 55" by simp
  from round_to_double_near [OF this] have "\<bar>round_to_double ?x - ?x\<bar> \<le> (2::real)" by simp
  with x have rx: "\<bar>round_to_double ?x\<bar> \<le> 2 ^ 54 + 4" by linarith
  with ovr have s: "\<bar>?s\<bar> \<le> 2 ^ 53 + 2 ^ 54 + 4" by linarith
  then have "\<bar>?s\<bar> < 2 powi 56" by simp
  from round_to_double_near [OF this] have "\<bar>round_to_double ?s - ?s\<bar> \<le> (4::real)" by simp
  with s have rs: "\<bar>round_to_double ?s\<bar> \<le> 2 ^ 53 + 2 ^ 54 + 8" by linarith
  have sf: "strike_float ov cr ?c = round_to_double ?s"
    by (simp only: strike_float_def fo)
  from ovr have "\<bar>of_int ov :: real\<bar> \<le> 2 ^ 56" by simp
  then have 1: "\<bar>float_of_int ov\<bar> < 2 powi 1024" unfolding fo by (rule below_overflow)
  from f have "\<bar>?f\<bar> \<le> 2 ^ 56" by simp
  then have 2: "\<bar>?f\<bar> < 2 powi 1024" by (rule below_overflow)
  from rs have "\<bar>round_to_double ?s\<bar> \<le> 2 ^ 56" by simp
  then have 3: "\<bar>strike_float ov cr ?c\<bar> < 2 powi 1024" unfolding sf by (rule below_overflow)
  from 1 2 3 show ?thesis
    unfolding strike_value_overflows_def Let_def by linarith
qed

subsection \<open>The strike value at given arguments\<close>

text \<open>
  The literal \<^verbatim>\<open>0.40\<close> denotes the binary64 number nearest to four tenths,
  3602879701896397 / 9007199254740992; the rounded product and sum are the same for
  both.
\<close>

lemma four_tenths_double: "round_to_double (4 / 10) = 3602879701896397 / 9007199254740992"
  by (simp add: rd_eval)

lemma strike_value_scenario_a: "compute_strike_value 1000 120 (4 / 10) = 648"
proof -
  have a: "float_of_int 1000 = 1000" "float_of_int (120 - 1000) = - 880"
    by (simp_all add: float_of_int_def rd_eval)
  have b: "round_to_double (- 880 * (4 / 10)) = - 352"
    by (simp add: rd_eval)
  have c: "round_to_double (1000 + - 352) = 648"
    by (simp add: rd_eval)
  have d: "max 0 (min 1 (4 / 10 :: real)) = 4 / 10" by simp
  show ?thesis
    unfolding compute_strike_value_def strike_float_def Let_def d a b c by (simp add: py_round_def)
qed

lemma strike_value_scenario_a_double: "compute_strike_value 1000 120 (3602879701896397 / 9007199254740992) = 648"
proof -
  have a: "float_of_int 1000 = 1000" "float_of_int (120 - 1000) = - 880"
    by (simp_all add: float_of_int_def rd_eval)
  have b: "round_to_double (- 880 * (3602879701896397 / 9007199254740992)) = - 352"
    by (simp add: rd_eval)
  have c: "round_to_double (1000 + - 352) = 648"
    by (simp add: rd_eval)
  have d: "max 0 (min 1 (3602879701896397 / 9007199254740992 :: real)) = 3602879701896397 / 9007199254740992" by simp
  show ?thesis
    unfolding compute_strike_value_def strike_float_def Let_def d a b c by (simp add: py_round_def)
qed


text \<open>
  The literal \<^verbatim>\<open>0.55\<close> denotes 2476979795053773 / 4503599627370496, a little more than
  55 hundredths. Its product with - 990 is rounded to - 544.5, and the sum 455.5 is a
  tie, which \<^verbatim>\<open>round\<close> resolves to the even neighbour.
\<close>

lemma strike_value_tie: "compute_strike_value 1000 10 (2476979795053773 / 4503599627370496) = 456"
proof -
  have a: "float_of_int 1000 = 1000" "float_of_int (10 - 1000) = - 990"
    by (simp_all add: float_of_int_def rd_eval)
  have b: "round_to_double (- 990 * (2476979795053773 / 4503599627370496)) = - (1089 / 2)"
    by (simp add: rd_eval)
  have c: "round_to_double (1000 + - (1089 / 2)) = 911 / 2"
    by (simp add: rd_eval)
  have d: "max 0 (min 1 (2476979795053773 / 4503599627370496 :: real)) = 2476979795053773 / 4503599627370496" by simp
  show ?thesis
    unfolding compute_strike_value_def strike_float_def Let_def d a b c by (simp add: py_round_def)
qed

subsection \<open>The claims\<close>

text \<open>
  C1 (scenario A of the specification): with open value 1000, close reference 120 and
  down fraction 0.40 the specification expects strike value 472. The code interpolates
  from the open value towards the close reference, 1000 + (120 - 1000) * 0.4 = 648.
\<close>

theorem C1_strike_value_is_not_472:
  "compute_strike_value 1000 120 (4 / 10) \<noteq> 472
   \<and> compute_strike_value 1000 120 (3602879701896397 / 9007199254740992) \<noteq> 472"
  using strike_value_scenario_a strike_value_scenario_a_double by simp

text \<open>
  C1, amended: for open value 1000, close reference 120 and down fraction 0.40 the
  strike value computed by the code is 648: at four tenths, and at the binary64 number
  that the literal 0.40 denotes, for which the function returns without overflow.
\<close>

theorem C1_strike_value_is_648:
  "compute_strike_value 1000 120 (4 / 10) = 648
   \<and> round_to_double (4 / 10) = 3602879701896397 / 9007199254740992
   \<and> compute_strike_value 1000 120 (3602879701896397 / 9007199254740992) = 648
   \<and> strike_value_overflows 1000 120 (3602879701896397 / 9007199254740992) = False"
proof -
  have "strike_value_overflows 1000 120 (3602879701896397 / 9007199254740992) = False"
    using strike_value_returns [of 1000 120 "3602879701896397 / 9007199254740992"] by simp
  with strike_value_scenario_a four_tenths_double strike_value_scenario_a_double
  show ?thesis by (intro conjI)
qed

text \<open>
  C2 as stated (the strike value is the exact interpolation formula rounded; any down
  fraction of at most 0 gives exactly the open value) fails, because the code evaluates
  the formula in binary64 arithmetic. Open value 2 ^ 53 + 1 is no binary64 number: with
  close reference 0 and down fraction 0.0 the function returns 2 ^ 53, without
  overflow. With open value 1000, close reference 10 and down fraction 0.55 the
  function returns 456 where the exact formula rounds to 455; with open value 0, close
  reference 5 and down fraction 0.1 (the binary64 number
  3602879701896397 / 36028797018963968) it returns 0 where the exact formula rounds
  to 1.
\<close>

theorem C2_float_arithmetic_departs_from_exact_formula:
  "compute_strike_value 9007199254740993 0 0 = 9007199254740992
   \<and> strike_value_overflows 9007199254740993 0 0 = False
   \<and> compute_strike_value 1000 10 (2476979795053773 / 4503599627370496) = 456
   \<and> py_round (1000 + of_int (10 - 1000) * clamp01 (2476979795053773 / 4503599627370496)) = 455
   \<and> compute_strike_value 0 5 (3602879701896397 / 36028797018963968) = 0
   \<and> py_round (0 + of_int (5 - 0) * clamp01 (3602879701896397 / 36028797018963968)) = 1"
proof -
  have a: "float_of_int 9007199254740993 = 9007199254740992"
    "float_of_int (0 - 9007199254740993) = - 9007199254740992"
    by (simp_all add: float_of_int_def rd_eval)
  have b: "round_to_double (- 9007199254740992 * 0) = 0" by (simp add: rd_eval)
  have c: "round_to_double (9007199254740992 + 0) = 9007199254740992" by (simp add: rd_eval)
  have d: "max 0 (min 1 (0 :: real)) = 0" by simp
  have sf: "strike_float 9007199254740993 0 0 = 9007199254740992"
    unfolding strike_float_def a b c ..
  have 1: "compute_strike_value 9007199254740993 0 0 = 9007199254740992"
    unfolding compute_strike_value_def Let_def d sf by (simp add: py_round_def)
  have 2: "strike_value_overflows 9007199254740993 0 0 = False"
    unfolding strike_value_overflows_def Let_def d sf a by simp
  have a3: "float_of_int 0 = 0" "float_of_int (5 - 0) = 5"
    by (simp_all add: float_of_int_def rd_eval)
  have b3: "round_to_double (5 * (3602879701896397 / 36028797018963968)) = 1 / 2"
    by (simp add: rd_eval)
  have c3: "round_to_double (0 + 1 / 2) = 1 / 2" by (simp add: rd_eval)
  have d3: "max 0 (min 1 (3602879701896397 / 36028797018963968 :: real)) = 3602879701896397 / 36028797018963968"
    by simp
  have 5: "compute_strike_value 0 5 (3602879701896397 / 36028797018963968) = 0"
    unfolding compute_strike_value_def strike_float_def Let_def d3 a3 b3 c3 by (simp add: py_round_def)
  have 4: "py_round (1000 + of_int (10 - 1000) * clamp01 (2476979795053773 / 4503599627370496)) = 455"
    by (simp add: clamp01_def py_round_def)
  have 6: "py_round (0 + of_int (5 - 0) * clamp01 (3602879701896397 / 36028797018963968)) = 1"
    by (simp add: clamp01_def py_round_def)
  from 1 2 strike_value_tie 4 5 6 show ?thesis by (intro conjI)
qed

text \<open>
  C2, amended: for every integer open value \<open>ov\<close>, integer close reference \<open>cr\<close> and
  real down fraction \<open>d\<close>, the strike value (the value returned, when the function
  returns) is the binary64 value of the interpolation formula, with the down fraction
  clamped to the unit interval, rounded by \<^verbatim>\<open>round\<close>: an integer within 1 / 2 of that
  binary64 value. The function returns, without overflow, whenever \<open>ov\<close> and \<open>cr\<close> are at
  most 2 ^ 53 in magnitude. If \<open>ov\<close> is at most 2 ^ 53 in magnitude, any down fraction of
  at most 0 gives exactly \<open>ov\<close>. If \<open>ov\<close>, \<open>cr\<close> and \<open>cr - ov\<close> are at most 2 ^ 53 in
  magnitude, any down fraction of at least 1 gives exactly \<open>cr\<close>. If \<open>ov\<close> and \<open>cr\<close> are at
  most 2 ^ 31 in magnitude, the binary64 value is within 1 / 2 ^ 20 of the exact
  interpolated value, and the strike value within 1 / 2 + 1 / 2 ^ 20 of it.
\<close>

theorem C2_strike_value_formula:
  "compute_strike_value ov cr d = py_round (strike_float ov cr (clamp01 d))
   \<and> \<bar>of_int (compute_strike_value ov cr d) - strike_float ov cr (clamp01 d)\<bar> \<le> 1 / 2
   \<and> (\<bar>ov\<bar> \<le> 2 ^ 53 \<and> \<bar>cr\<bar> \<le> 2 ^ 53 \<longrightarrow> \<not> strike_value_overflows ov cr d)
   \<and> (\<bar>ov\<bar> \<le> 2 ^ 53 \<and> d \<le> 0 \<longrightarrow> compute_strike_value ov cr d = ov)
   \<and> (\<bar>ov\<bar> \<le> 2 ^ 53 \<and> \<bar>cr\<bar> \<le> 2 ^ 53 \<and> \<bar>cr - ov\<bar> \<le> 2 ^ 53 \<and> 1 \<le> d
        \<longrightarrow> compute_strike_value ov cr d = cr)
   \<and> (\<bar>ov\<bar> \<le> 2 ^ 31 \<and> \<bar>cr\<bar> \<le> 2 ^ 31
        \<longrightarrow> \<bar>strike_float ov cr (clamp01 d) - (of_int ov + of_int (cr - ov) * clamp01 d)\<bar> \<le> 1 / 2 ^ 20
            \<and> \<bar>of_int (compute_strike_value ov cr d) - (of_int ov + of_int (cr - ov) * clamp01 d)\<bar>
                \<le> 1 / 2 + 1 / 2 ^ 20)"
proof -
  let ?exact = "(of_int ov :: real) + of_int (cr - ov) * clamp01 d"
  have formula: "compute_strike_value ov cr d = py_round (strike_float ov cr (clamp01 d))"
    by (simp add: compute_strike_value_def code_clamp_is_clamp01)
  have near: "\<bar>of_int (compute_strike_value ov cr d) - strike_float ov cr (clamp01 d)\<bar> \<le> 1 / 2"
    unfolding formula by (rule py_round_nearest)
  have returns: "\<not> strike_value_overflows ov cr d" if "\<bar>ov\<bar> \<le> 2 ^ 53" "\<bar>cr\<bar> \<le> 2 ^ 53"
    using that by (rule strike_value_returns)
  have low: "compute_strike_value ov cr d = ov" if "\<bar>ov\<bar> \<le> 2 ^ 53" "d \<le> 0"
  proof -
    from that(2) have "clamp01 d = 0" by (simp add: clamp01_def)
    with strike_float_closed [OF that(1)] show ?thesis
      by (simp add: formula py_round_of_int)
  qed
  have high: "compute_strike_value ov cr d = cr"
    if "\<bar>ov\<bar> \<le> 2 ^ 53" "\<bar>cr\<bar> \<le> 2 ^ 53" "\<bar>cr - ov\<bar> \<le> 2 ^ 53" "1 \<le> d"
  proof -
    from that(4) have "clamp01 d = 1" by (simp add: clamp01_def)
    with strike_float_open [OF that(1,2,3)] show ?thesis
      by (simp add: formula py_round_of_int)
  qed
  have acc: "\<bar>strike_float ov cr (clamp01 d) - ?exact\<bar> \<le> 1 / 2 ^ 20"
    if "\<bar>ov\<bar> \<le> 2 ^ 31" "\<bar>cr\<bar> \<le> 2 ^ 31"
    using that clamp01_range [of d] by (intro strike_float_accuracy) simp_all
  have acc2: "\<bar>of_int (compute_strike_value ov cr d) - ?exact\<bar> \<le> 1 / 2 + 1 / 2 ^ 20"
    if "\<bar>ov\<bar> \<le> 2 ^ 31" "\<bar>cr\<bar> \<le> 2 ^ 31"
    using acc [OF that] near by linarith
  from formula near returns low high acc acc2 show ?thesis by blast
qed

theorem C2_strike_value_formula_witness:
  "compute_strike_value 1000 120 (- 3) = 1000
   \<and> compute_strike_value 1000 120 2 = 120
   \<and> \<not> strike_value_overflows 1000 120 (1 / 4)
   \<and> \<bar>of_int (compute_strike_value 1000 120 (1 / 4)) - (780 :: real)\<bar> \<le> 1 / 2 + 1 / 2 ^ 20"
  using C2_strike_value_formula [of 1000 120 "- 3", THEN conjunct2]
    C2_strike_value_formula [of 1000 120 2, THEN conjunct2]
    C2_strike_value_formula [of 1000 120 "1 / 4", THEN conjunct2]
  by (simp add: clamp01_def)

section \<open>Properties of the margin score\<close>

lemma joint_margin_bounds: "0 \<le> joint_margin a lu \<and> joint_margin a lu \<le> 1"
  by (cases lu) (simp add: joint_margin_def Let_def)

lemma joint_margin_degenerate: "snd lu \<le> fst lu \<Longrightarrow> joint_margin a lu = 0"
  by (cases lu) (simp add: joint_margin_def)

lemma min_list_bounds:
  fixes xs :: "real list"
  assumes "xs \<noteq> []" and "list_all (\<lambda>x. lo \<le> x \<and> x \<le> hi) xs"
  shows "lo \<le> min_list xs \<and> min_list xs \<le> hi"
proof -
  have "min_list xs \<in> set xs"
    using assms(1) by (simp add: min_list_Min)
  with assms(2) show ?thesis by (simp add: list_all_iff)
qed

lemma margins_all_bounded:
  "list_all (\<lambda>x. 0 \<le> x \<and> x \<le> 1) (map (\<lambda>(angle, lu). joint_margin angle lu) zs)"
  by (induction zs) (auto simp: joint_margin_bounds)

lemma joint_margin_score_with_bounds:
  "0 \<le> joint_margin_score_with limits angles \<and> joint_margin_score_with limits angles \<le> 1"
  unfolding joint_margin_score_with_def Let_def
  using min_list_bounds [OF _ margins_all_bounded] by auto

lemma joint_margin_score_with_degenerate:
  assumes "i < length angles" and "i < length limits" and "snd (limits ! i) \<le> fst (limits ! i)"
  shows "joint_margin_score_with limits angles = 0"
proof -
  let ?ms = "map (\<lambda>(angle, lu). joint_margin angle lu) (zip angles limits)"
  from assms(1,2) have i: "i < length ?ms" by simp
  then have ne: "?ms \<noteq> []" by auto
  have "?ms ! i = joint_margin (angles ! i) (limits ! i)"
    using assms(1,2) by simp
  with assms(3) have "?ms ! i = 0" by (simp add: joint_margin_degenerate)
  with i have "0 \<in> set ?ms" by (metis nth_mem)
  then have "Min (set ?ms) \<le> 0" by (simp add: Min_le)
  then have "min_list ?ms \<le> 0" using ne by (simp add: min_list_Min)
  moreover have "0 \<le> min_list ?ms"
    using min_list_bounds [OF ne margins_all_bounded] by simp
  ultimately show ?thesis
    using ne by (simp add: joint_margin_score_with_def Let_def)
qed

text \<open>
  C7: for every pose of six angles the joint-margin score lies in [0,1]; under any table
  of limits, a joint of the pose whose limit range has zero width (or is inverted) makes
  the score of the pose 0; and the margin of a candidate is the minimum of the scores
  of the centre pose and of the two poses whose first joint is moved by plus and by
  minus the sweep delta.
\<close>

theorem C7_margin_score:
  assumes "length angles = 6"
  shows "0 \<le> joint_margin_score angles \<and> joint_margin_score angles \<le> 1
    \<and> (\<forall>limits i. i < 6 \<and> i < length limits \<and> snd (limits ! i) \<le> fst (limits ! i)
          \<longrightarrow> joint_margin_score_with limits angles = 0)
    \<and> candidate_margin angles delta =
        Inr (min (joint_margin_score angles)
              (min (joint_margin_score (angles[0 := angles ! 0 + delta]))
                   (joint_margin_score (angles[0 := angles ! 0 - delta]))))"
proof -
  have bounds: "0 \<le> joint_margin_score angles \<and> joint_margin_score angles \<le> 1"
    unfolding joint_margin_score_def by (rule joint_margin_score_with_bounds)
  have degenerate: "\<forall>limits i. i < 6 \<and> i < length limits \<and> snd (limits ! i) \<le> fst (limits ! i)
          \<longrightarrow> joint_margin_score_with limits angles = 0"
    using assms joint_margin_score_with_degenerate [of _ angles] by auto
  from assms obtain j1 rest where angles: "angles = j1 # rest"
    by (cases angles) auto
  have "candidate_margin angles delta =
        Inr (min (joint_margin_score angles)
              (min (joint_margin_score (angles[0 := angles ! 0 - \<bar>delta\<bar>]))
                   (joint_margin_score (angles[0 := angles ! 0 + \<bar>delta\<bar>]))))"
    by (simp add: angles candidate_margin_def pose_with_j1_offset_def)
  also have "\<dots> = Inr (min (joint_margin_score angles)
              (min (joint_margin_score (angles[0 := angles ! 0 + delta]))
                   (joint_margin_score (angles[0 := angles ! 0 - delta]))))"
    by (cases "0 \<le> delta") (simp_all add: abs_if min.commute)
  finally show ?thesis using bounds degenerate by blast
qed

theorem C7_margin_score_witness:
  "0 \<le> joint_margin_score [0, -17, -28, 0, 75, -45]
   \<and> joint_margin_score [0, -17, -28, 0, 75, -45] \<le> 1
   \<and> joint_margin_score_with
        [(-360, 360), (5, 5), (-242, 7 / 2), (-360, 360), (-124, 124), (-360, 360)]
        [0, -17, -28, 0, 75, -45] = 0
   \<and> candidate_margin [0, -17, -28, 0, 75, -45] 10 =
        Inr (min (joint_margin_score [0, -17, -28, 0, 75, -45])
              (min (joint_margin_score [10, -17, -28, 0, 75, -45])
                   (joint_margin_score [-10, -17, -28, 0, 75, -45])))"
proof -
  have len: "length [0, -17, -28, 0, 75, -45 :: real] = 6" by simp
  note c7 = C7_margin_score [OF len, of 10]
  from c7 have "joint_margin_score_with
        [(-360, 360), (5, 5), (-242, 7 / 2), (-360, 360), (-124, 124), (-360, 360)]
        [0, -17, -28, 0, 75, -45] = 0"
    by (elim conjE allE [where x = "[(-360, 360), (5, 5), (-242, 7 / 2), (-360, 360), (-124, 124), (-360, 360)]"]
          allE [where x = "1::nat"]) simp
  with c7 show ?thesis by simp
qed

section \<open>Properties of the calibration engine\<close>

lemma timed_moves_times:
  "timed_moves env ps st mlog = (True, st', mlog') \<Longrightarrow> length st' = length st + length ps"
proof (induction ps arbitrary: st mlog)
  case Nil
  then show ?case by simp
next
  case (Cons p ps)
  then show ?case by (auto split: prod.splits if_splits)
qed

lemma sweep_cycles_times:
  "sweep_cycles env n ps st mlog = (True, st', mlog') \<Longrightarrow> length st' = length st + n * length ps"
proof (induction n arbitrary: st mlog)
  case 0
  then show ?case by simp
next
  case (Suc n)
  obtain c st1 mlog1 where tm: "timed_moves env ps st mlog = (c, st1, mlog1)"
    by (cases "timed_moves env ps st mlog") auto
  with Suc.prems have c: "c" and rest: "sweep_cycles env n ps st1 mlog1 = (True, st', mlog')"
    by (auto split: if_splits)
  from tm c have "length st1 = length st + length ps"
    by (simp add: timed_moves_times)
  moreover from Suc.IH [OF rest] have "length st' = length st1 + n * length ps" .
  ultimately show ?case by simp
qed

lemma run_sweep_benchmark_ok_times:
  assumes "run_sweep_benchmark env pose delta cycles mlog = Inr ((True, why, st), mlog')"
  shows "length st = 3 * nat cycles"
  using assms
  by (auto simp: run_sweep_benchmark_def split: sum.splits prod.splits if_splits
      dest!: sweep_cycles_times)

lemma evaluate_candidate_ok_raw:
  assumes "evaluate_candidate args env cand mlog = Inr (r, mlog')" and "ok r"
    and "0 < arg_cycles args"
  shows "0 < speed_raw r \<and> 0 < smoothness_raw r"
proof -
  obtain cname pose where cand: "cand = (cname, pose)" by (cases cand)
  from assms(1) obtain margin where m: "candidate_margin pose (arg_sweep_delta_j1 args) = Inr margin"
    by (auto simp: evaluate_candidate_def cand split: sum.splits)
  from assms(1) m obtain b why st mlog1 where
    rb: "run_sweep_benchmark env pose (arg_sweep_delta_j1 args) (arg_cycles args) mlog = Inr ((b, why, st), mlog1)"
    by (cases "run_sweep_benchmark env pose (arg_sweep_delta_j1 args) (arg_cycles args) mlog")
       (auto simp: evaluate_candidate_def cand)
  from assms(1,2) m rb have b: "b"
    by (auto simp: evaluate_candidate_def cand Let_def split: if_splits)
  with rb have "length st = 3 * nat (arg_cycles args)"
    using run_sweep_benchmark_ok_times [of env pose "arg_sweep_delta_j1 args" "arg_cycles args" mlog why st mlog1]
    by simp
  with assms(3) have ne: "st \<noteq> []" by auto
  have pos: "0 < 1 / max x (1 / 1000000)" for x :: real
    by (simp add: max_def)
  from assms(1) m rb b ne show ?thesis
    by (auto simp: evaluate_candidate_def cand Let_def pos simp del: divide_pos_pos zero_less_divide_iff)
qed

lemma evaluate_candidates_ok_raw:
  assumes "evaluate_candidates args env cands acc mlog = Inr (results, mlog')"
    and "0 < arg_cycles args"
    and "list_all (\<lambda>r. ok r \<longrightarrow> 0 < speed_raw r \<and> 0 < smoothness_raw r) acc"
  shows "list_all (\<lambda>r. ok r \<longrightarrow> 0 < speed_raw r \<and> 0 < smoothness_raw r) results"
  using assms
proof (induction cands arbitrary: acc mlog)
  case Nil
  then show ?case by simp
next
  case (Cons c cs)
  from Cons.prems(1) obtain r mlog1 where
    one: "evaluate_candidate args env c mlog = Inr (r, mlog1)"
    and rest: "evaluate_candidates args env cs (acc @ [r]) mlog1 = Inr (results, mlog')"
    by (auto split: sum.splits)
  from evaluate_candidate_ok_raw [OF one _ Cons.prems(2)]
  have "ok r \<longrightarrow> 0 < speed_raw r \<and> 0 < smoothness_raw r" by blast
  with Cons.prems(3) have "list_all (\<lambda>r. ok r \<longrightarrow> 0 < speed_raw r \<and> 0 < smoothness_raw r) (acc @ [r])"
    by simp
  from Cons.IH [OF rest Cons.prems(2) this] show ?case .
qed

lemma score_results_single:
  assumes "filter ok results = [r]"
  shows "score_results results =
     map (\<lambda>x. if ok x
               then x\<lparr>total_score :=
                        (50 / 100) * (speed_raw x / or_one (speed_raw r))
                        + (35 / 100) * (smoothness_raw x / or_one (smoothness_raw r))
                        + (15 / 100) * (margin_raw x / or_one (margin_raw r))\<rparr>
               else x) results"
  using assms by (simp add: score_results_def)

lemma filter_ok_map_total_score:
  "filter ok (map (\<lambda>x. if ok x then x\<lparr>total_score := f x\<rparr> else x) results) =
   map (\<lambda>x. x\<lparr>total_score := f x\<rparr>) (filter ok results)"
  by (induction results) auto

lemma self_normalised: "x / or_one x = (if x = 0 then 0 else 1)"
  by (simp add: or_one_def)

lemma select_and_report_single:
  assumes one: "filter ok results = [r]"
  shows "written_report (select_and_report args env results mlog) =
          Some \<lparr>report_xarm_ip = arg_xarm_ip args,
                 report_sweep_delta_j1_deg = arg_sweep_delta_j1 args,
                 report_cycles = arg_cycles args,
                 report_speed = arg_speed args,
                 report_acc = arg_acc args,
                 best_candidate = r\<lparr>total_score := (50 / 100) * unit_score (speed_raw r)
                        + (35 / 100) * unit_score (smoothness_raw r)
                        + (15 / 100) * unit_score (margin_raw r)\<rparr>,
                 all_candidates = score_results results\<rparr>"
proof -
  have "filter ok (score_results results) = [r\<lparr>total_score := (50 / 100) * unit_score (speed_raw r)
                        + (35 / 100) * unit_score (smoothness_raw r)
                        + (15 / 100) * unit_score (margin_raw r)\<rparr>]"
    by (simp only: score_results_single [OF one] filter_ok_map_total_score one list.map self_normalised unit_score_def)
  then show ?thesis
    by (simp add: select_and_report_def Let_def)
qed

lemma select_and_report_none:
  assumes "filter ok results = []"
  shows "select_and_report args env results mlog =
     \<lparr>exit_code = 1, written_report = None, commanded = mlog, arm_disconnected = True\<rparr>"
  using assms by (simp add: select_and_report_def score_results_def)

lemma unit_total_one:
  "(50 / 100) * unit_score a + (35 / 100) * unit_score b + (15 / 100) * unit_score c = 1
   \<longleftrightarrow> a \<noteq> 0 \<and> b \<noteq> 0 \<and> c \<noteq> 0"
  by (simp add: unit_score_def)

lemmas calibration_eval =
  default_args_def arm_accepts_first_def CANDIDATE_CENTERS_def evaluate_candidate_def
  candidate_margin_def run_sweep_benchmark_def pose_with_j1_offset_def joint_margin_score_def
  joint_margin_score_with_def JOINT_LIMITS_DEG_def joint_margin_def mean_def pstdev_def

text \<open>
  C8: in every calibration run that reaches the benchmarks (the arm answers the ping,
  \<^verbatim>\<open>--execute\<close> is given, the arm connects and reaches the home pose) and in which no
  candidate is marked ok, \<^verbatim>\<open>main\<close> returns the failure exit code 1 and writes no
  report, hence none with a best candidate.
\<close>

theorem C8_all_candidates_fail:
  assumes "ping_ok" and "arg_execute args" and "connect_ok" and "fst (env 0)"
    and "evaluate_candidates args env CANDIDATE_CENTERS [] [arg_home_joints args] = Inr (results, mlog)"
    and "filter ok results = []"
  shows "calibration_main args ping_ok connect_ok env =
           Inr \<lparr>exit_code = 1, written_report = None, commanded = mlog, arm_disconnected = True\<rparr>"
  using assms by (simp add: calibration_main_def select_and_report_none)

theorem C8_all_candidates_fail_witness:
  "calibration_main default_args True True (arm_accepts_first 1) =
     Inr \<lparr>exit_code = 1, written_report = None,
          commanded = [[0, 0, 0, 0, 90, -45], [0, -20, -35, 0, 100, -45], [0, -17, -28, 0, 75, -45],
                       [0, -26, -44, 0, 106, -45], [0, -18, -52, 0, 110, -45]],
          arm_disconnected = True\<rparr>"
proof -
  let ?ev = "evaluate_candidates default_args (arm_accepts_first 1) CANDIDATE_CENTERS []
               [arg_home_joints default_args]"
  have ev: "?ev = Inr (fst (projr ?ev), [[0, 0, 0, 0, 90, -45], [0, -20, -35, 0, 100, -45], [0, -17, -28, 0, 75, -45],
                       [0, -26, -44, 0, 106, -45], [0, -18, -52, 0, 110, -45]])"
    by (simp add: calibration_eval)
  have none: "filter ok (fst (projr ?ev)) = []"
    by (simp add: calibration_eval)
  have "fst (arm_accepts_first 1 0)" "arg_execute default_args"
    by (simp_all add: default_args_def arm_accepts_first_def)
  from C8_all_candidates_fail [OF TrueI this(2) TrueI this(1) ev none]
  show ?thesis .
qed

text \<open>
  C6 as stated fails: with \<^verbatim>\<open>--cycles 0\<close> a benchmark whose four warm-up moves are
  accepted is marked ok with no segment times, so raw speed and smoothness are 0. When
  this is the only ok candidate its speed and smoothness sub-scores are 0, not 1, and
  its total score is 0.15.
\<close>

theorem C6_zero_raw_metric_scores_below_one:
  "calibration_main (default_args\<lparr>arg_cycles := 0\<rparr>) True True (arm_accepts_first 5) =
     Inr \<lparr>exit_code = 0,
          written_report =
            Some \<lparr>report_xarm_ip = ''192.168.0.203'', report_sweep_delta_j1_deg = 10,
                   report_cycles = 0, report_speed = 60, report_acc = 600,
                   best_candidate =
                     \<lparr>name = ''center_a'', center_pose_deg = [0, -20, -35, 0, 100, -45],
                      ok = True, reason = ''ok'', segment_times_sec = [],
                      mean_segment_time_sec = Infinity, std_segment_time_sec = Infinity,
                      speed_raw = 0, smoothness_raw = 0, margin_raw = 6 / 31,
                      total_score = 3 / 20\<rparr>,
                   all_candidates =
                     [\<lparr>name = ''center_a'', center_pose_deg = [0, -20, -35, 0, 100, -45],
                       ok = True, reason = ''ok'', segment_times_sec = [],
                       mean_segment_time_sec = Infinity, std_segment_time_sec = Infinity,
                       speed_raw = 0, smoothness_raw = 0, margin_raw = 6 / 31,
                       total_score = 3 / 20\<rparr>,
                      \<lparr>name = ''center_b'', center_pose_deg = [0, -17, -28, 0, 75, -45],
                       ok = False, reason = ''warmup move failed'', segment_times_sec = [],
                       mean_segment_time_sec = Infinity, std_segment_time_sec = Infinity,
                       speed_raw = 0, smoothness_raw = 0, margin_raw = 126 / 491,
                       total_score = 0\<rparr>,
                      \<lparr>name = ''center_c'', center_pose_deg = [0, -26, -44, 0, 106, -45],
                       ok = False, reason = ''warmup move failed'', segment_times_sec = [],
                       mean_segment_time_sec = Infinity, std_segment_time_sec = Infinity,
                       speed_raw = 0, smoothness_raw = 0, margin_raw = 9 / 62,
                       total_score = 0\<rparr>,
                      \<lparr>name = ''center_d'', center_pose_deg = [0, -18, -52, 0, 110, -45],
                       ok = False, reason = ''warmup move failed'', segment_times_sec = [],
                       mean_segment_time_sec = Infinity, std_segment_time_sec = Infinity,
                       speed_raw = 0, smoothness_raw = 0, margin_raw = 7 / 62,
                       total_score = 0\<rparr>]\<rparr>,
          commanded =
            [[0, 0, 0, 0, 90, -45], [0, -20, -35, 0, 100, -45], [-10, -20, -35, 0, 100, -45],
             [10, -20, -35, 0, 100, -45], [0, -20, -35, 0, 100, -45], [0, -17, -28, 0, 75, -45],
             [0, -26, -44, 0, 106, -45], [0, -18, -52, 0, 110, -45], [0, 0, 0, 0, 90, -45]],
          arm_disconnected = True\<rparr>
   \<and> total_score (best_candidate (the (written_report (projr
         (calibration_main (default_args\<lparr>arg_cycles := 0\<rparr>) True True (arm_accepts_first 5)))))) \<noteq> 1"
  by (simp add: calibration_eval calibration_main_def select_and_report_def score_results_def
      or_one_def)

text \<open>
  C6, amended: in every calibration run that reaches the benchmarks and in which exactly
  one candidate is marked ok, that candidate is the best candidate of the written
  report, whatever its raw metrics are. Each of its sub-scores, normalised against
  itself, is 1 when the raw metric is non-zero and 0 when the raw metric is zero (the
  guard replaces a zero divisor by 1.0); so its total score is 1 exactly when its three
  raw metrics are non-zero. With a positive cycle count its raw speed and smoothness
  are non-zero.
\<close>

theorem C6_single_ok_candidate:
  assumes "ping_ok" and "arg_execute args" and "connect_ok" and "fst (env 0)"
    and ev: "evaluate_candidates args env CANDIDATE_CENTERS [] [arg_home_joints args] = Inr (results, mlog)"
    and one: "filter ok results = [r]"
  shows "\<exists>out rep. calibration_main args ping_ok connect_ok env = Inr out
      \<and> written_report out = Some rep
      \<and> best_candidate rep =
          r\<lparr>total_score := (50 / 100) * unit_score (speed_raw r)
                            + (35 / 100) * unit_score (smoothness_raw r)
                            + (15 / 100) * unit_score (margin_raw r)\<rparr>
      \<and> (total_score (best_candidate rep) = 1
            \<longleftrightarrow> speed_raw r \<noteq> 0 \<and> smoothness_raw r \<noteq> 0 \<and> margin_raw r \<noteq> 0)
      \<and> (0 < arg_cycles args \<longrightarrow> speed_raw r \<noteq> 0 \<and> smoothness_raw r \<noteq> 0)"
proof -
  let ?out = "select_and_report args env results mlog"
  let ?t = "(50 / 100) * unit_score (speed_raw r) + (35 / 100) * unit_score (smoothness_raw r)
              + (15 / 100) * unit_score (margin_raw r)"
  have main: "calibration_main args ping_ok connect_ok env = Inr ?out"
    using assms(1-4) ev by (simp add: calibration_main_def)
  note rep = select_and_report_single [OF one, of args env mlog]
  have cyc: "speed_raw r \<noteq> 0 \<and> smoothness_raw r \<noteq> 0" if "0 < arg_cycles args"
  proof -
    have "list_all (\<lambda>r. ok r \<longrightarrow> 0 < speed_raw r \<and> 0 < smoothness_raw r) results"
      using evaluate_candidates_ok_raw [OF ev that] by simp
    moreover have "r \<in> set (filter ok results)"
      by (simp add: one)
    then have "r \<in> set results" "ok r"
      by simp_all
    ultimately show ?thesis by (auto simp: list_all_iff)
  qed
  have "total_score (r\<lparr>total_score := ?t\<rparr>) = 1
            \<longleftrightarrow> speed_raw r \<noteq> 0 \<and> smoothness_raw r \<noteq> 0 \<and> margin_raw r \<noteq> 0"
    using unit_total_one [of "speed_raw r" "smoothness_raw r" "margin_raw r"] by simp
  with main rep cyc show ?thesis by auto
qed


theorem C6_single_ok_candidate_witness:
  "\<exists>out rep. calibration_main (default_args\<lparr>arg_cycles := 1\<rparr>) True True (arm_accepts_first 8) = Inr out
      \<and> written_report out = Some rep
      \<and> name (best_candidate rep) = ''center_a''
      \<and> total_score (best_candidate rep) = 1"
proof -
  let ?args = "default_args\<lparr>arg_cycles := 1\<rparr>"
  let ?ev = "evaluate_candidates ?args (arm_accepts_first 8) CANDIDATE_CENTERS [] [arg_home_joints ?args]"
  have ev: "?ev = Inr (fst (projr ?ev), snd (projr ?ev))"
    by (simp add: calibration_eval)
  have one: "filter ok (fst (projr ?ev)) = [hd (fst (projr ?ev))]"
    by (simp add: calibration_eval)
  have facts: "name (hd (fst (projr ?ev))) = ''center_a''" "0 < arg_cycles ?args"
    "margin_raw (hd (fst (projr ?ev))) \<noteq> 0"
    by (simp_all add: calibration_eval)
  have pre: "fst (arm_accepts_first 8 0)" "arg_execute ?args"
    by (simp_all add: default_args_def arm_accepts_first_def)
  from C6_single_ok_candidate [OF TrueI pre(2) TrueI pre(1) ev one] facts
  show ?thesis by auto
qed

section \<open>Properties of the fully-open reinforcement sequence\<close>

lemma touch_fingers_accepted:
  assumes "\<forall>i<length fs. w (length tr + i) = Returns True"
  shows "touch_fingers w ov h fs tr = (Returns True, tr @ map (\<lambda>f. HandMoveSingleMotor f ov h) fs)"
  using assms
proof (induction fs arbitrary: tr)
  case Nil
  then show ?case by simp
next
  case (Cons f fs)
  from Cons.prems have first: "w (length tr) = Returns True"
    by (metis add.right_neutral length_greater_0_conv list.distinct(1))
  have "\<forall>i<length fs. w (length (tr @ [HandMoveSingleMotor f ov h]) + i) = Returns True"
  proof (intro allI impI)
    fix i assume "i < length fs"
    then have "Suc i < length (f # fs)" by simp
    with Cons.prems have "w (length tr + Suc i) = Returns True" by blast
    then show "w (length (tr @ [HandMoveSingleMotor f ov h]) + i) = Returns True" by simp
  qed
  from Cons.IH [OF this] first show ?case
    by (simp add: call_def)
qed

lemma touch_fingers_prefix:
  "\<exists>k\<le>length fs. snd (touch_fingers w ov h fs tr) = tr @ take k (map (\<lambda>f. HandMoveSingleMotor f ov h) fs)
      \<and> (fst (touch_fingers w ov h fs tr) = Returns True \<longrightarrow> k = length fs)
      \<and> (fst (touch_fingers w ov h fs tr) = Interrupt \<longrightarrow> 0 < k \<and> w (length tr + k - 1) = Interrupt)"
proof (induction fs arbitrary: tr)
  case Nil
  then show ?case by simp
next
  case (Cons f fs)
  let ?e = "HandMoveSingleMotor f ov h"
  show ?case
  proof (cases "w (length tr)")
    case (Returns b)
    show ?thesis
    proof (cases b)
      case True
      from Cons.IH [of "tr @ [?e]"] obtain k where k: "k \<le> length fs"
        "snd (touch_fingers w ov h fs (tr @ [?e])) = (tr @ [?e]) @ take k (map (\<lambda>f. HandMoveSingleMotor f ov h) fs)"
        "fst (touch_fingers w ov h fs (tr @ [?e])) = Returns True \<longrightarrow> k = length fs"
        "fst (touch_fingers w ov h fs (tr @ [?e])) = Interrupt \<longrightarrow> 0 < k \<and> w (length (tr @ [?e]) + k - 1) = Interrupt"
        by blast
      with Returns True show ?thesis
        by (intro exI [where x = "Suc k"]) (auto simp: call_def)
    next
      case False
      with Returns show ?thesis
        by (intro exI [where x = 1]) (simp add: call_def)
    qed
  next
    case Interrupt
    then show ?thesis
      by (intro exI [where x = 1]) (simp add: call_def)
  qed
qed

lemma force_full_open_accepted:
  assumes "\<forall>i\<le>length fs. w (length tr + i) = Returns True"
  shows "force_full_open w ov h fs tr =
           (w (length tr + length fs + 1), tr @ full_open_sequence ov h fs)"
proof -
  let ?e = "HandSetAllMotors ov (max (20 / 100) h)"
  from assms have first: "w (length tr) = Returns True"
    by (metis add.right_neutral le0)
  have "\<forall>i<length fs. w (length (tr @ [?e]) + i) = Returns True"
  proof (intro allI impI)
    fix i assume "i < length fs"
    then have "Suc i \<le> length fs" by simp
    with assms have "w (length tr + Suc i) = Returns True" by blast
    then show "w (length (tr @ [?e]) + i) = Returns True" by simp
  qed
  from touch_fingers_accepted [OF this] first show ?thesis
    by (simp add: force_full_open_def Let_def call_def full_open_sequence_def)
qed

lemma full_open_sequence_take_Suc:
  "k \<le> length fs \<Longrightarrow>
   take (Suc k) (full_open_sequence ov h fs) =
     HandSetAllMotors ov (max (20 / 100) h)
       # take k (map (\<lambda>f. HandMoveSingleMotor f ov (max (4 / 100) (h * (5 / 10)))) fs)"
  by (simp add: full_open_sequence_def)

lemma full_open_sequence_length: "length (full_open_sequence ov h fs) = length fs + 2"
  by (simp add: full_open_sequence_def)

lemma force_full_open_prefix:
  "\<exists>k. 1 \<le> k \<and> k \<le> length fs + 2
     \<and> snd (force_full_open w ov h fs tr) = tr @ take k (full_open_sequence ov h fs)
     \<and> (fst (force_full_open w ov h fs tr) = Returns True \<longrightarrow> k = length fs + 2)
     \<and> (fst (force_full_open w ov h fs tr) = Interrupt \<longrightarrow> w (length tr + k - 1) = Interrupt)"
proof -
  let ?e = "HandSetAllMotors ov (max (20 / 100) h)"
  let ?h2 = "max (4 / 100) (h * (5 / 10))"
  let ?ms = "map (\<lambda>f. HandMoveSingleMotor f ov ?h2) fs"
  let ?P = "\<lambda>k. 1 \<le> k \<and> k \<le> length fs + 2
     \<and> snd (force_full_open w ov h fs tr) = tr @ take k (full_open_sequence ov h fs)
     \<and> (fst (force_full_open w ov h fs tr) = Returns True \<longrightarrow> k = length fs + 2)
     \<and> (fst (force_full_open w ov h fs tr) = Interrupt \<longrightarrow> w (length tr + k - 1) = Interrupt)"
  show ?thesis
  proof (cases "w (length tr) = Returns True")
    case False
    then have ffo: "force_full_open w ov h fs tr = (w (length tr), tr @ [?e])"
      by (cases "w (length tr)") (simp_all add: force_full_open_def Let_def call_def)
    have "take 1 (full_open_sequence ov h fs) = [?e]"
      by (simp add: full_open_sequence_def)
    with False ffo have "?P 1" by simp
    then show ?thesis ..
  next
    case True
    obtain r tr2 where t: "touch_fingers w ov ?h2 fs (tr @ [?e]) = (r, tr2)"
      by (cases "touch_fingers w ov ?h2 fs (tr @ [?e])")
    from touch_fingers_prefix [of fs w ov ?h2 "tr @ [?e]"] t obtain k where k: "k \<le> length fs"
      and tr2: "tr2 = (tr @ [?e]) @ take k ?ms"
      and full: "r = Returns True \<longrightarrow> k = length fs"
      and intr: "r = Interrupt \<longrightarrow> 0 < k \<and> w (length (tr @ [?e]) + k - 1) = Interrupt"
      by auto
    show ?thesis
    proof (cases "r = Returns True")
      case False
      with True t have ffo: "force_full_open w ov h fs tr = (r, tr2)"
        by (cases r) (simp_all add: force_full_open_def Let_def call_def)
      have a: "snd (force_full_open w ov h fs tr) = tr @ take (Suc k) (full_open_sequence ov h fs)"
        by (simp add: ffo tr2 full_open_sequence_take_Suc [OF k])
      have b: "fst (force_full_open w ov h fs tr) \<noteq> Returns True"
        using False by (simp add: ffo)
      have c: "w (length tr + Suc k - 1) = Interrupt" if "fst (force_full_open w ov h fs tr) = Interrupt"
      proof -
        from that have "r = Interrupt" by (simp add: ffo)
        with intr have "0 < k" and "w (length (tr @ [?e]) + k - 1) = Interrupt" by blast+
        then show ?thesis by simp
      qed
      from k a b c have "?P (Suc k)" by simp
      then show ?thesis ..
    next
      case rt: True
      with full have kl: "k = length fs" by blast
      with tr2 have tr2': "tr2 = tr @ ?e # ?ms" by simp
      from True t rt have ffo: "force_full_open w ov h fs tr = (w (length tr2), tr2 @ [?e])"
        by (simp add: force_full_open_def Let_def call_def)
      have a: "snd (force_full_open w ov h fs tr) = tr @ take (length fs + 2) (full_open_sequence ov h fs)"
        by (simp add: ffo tr2' full_open_sequence_def)
      have c: "w (length tr + (length fs + 2) - 1) = Interrupt" if "fst (force_full_open w ov h fs tr) = Interrupt"
        using that by (simp add: ffo tr2')
      from a c have "?P (length fs + 2)" by simp
      then show ?thesis ..
    qed
  qed
qed

lemma full_open_sequence_counts:
  "length (filter is_all_motors_command (full_open_sequence ov h fs)) = 2
   \<and> length (filter is_single_motor_command (full_open_sequence ov h fs)) = length fs"
proof -
  have "filter is_all_motors_command (map (\<lambda>f. HandMoveSingleMotor f ov x) fs) = []" for x
    by (induction fs) simp_all
  moreover have "filter is_single_motor_command (map (\<lambda>f. HandMoveSingleMotor f ov x) fs)
      = map (\<lambda>f. HandMoveSingleMotor f ov x) fs" for x
    by (induction fs) simp_all
  ultimately show ?thesis by (simp add: full_open_sequence_def)
qed

text \<open>
  C5 as stated fails: the sequence is abandoned at the first command the hand rejects.
  When the first all-motors command is rejected, that single command is all that is
  issued: one all-motors command and no single-motor command.
\<close>

theorem C5_sequence_abandoned_on_rejection:
  "force_full_open (rejects_at 0) 1000 (5 / 100) [3, 2, 1, 0] [] =
     (Returns False, [HandSetAllMotors 1000 (1 / 5)])
   \<and> length (filter is_all_motors_command
         (snd (force_full_open (rejects_at 0) 1000 (5 / 100) [3, 2, 1, 0] []))) \<noteq> 2
   \<and> length (filter is_single_motor_command
         (snd (force_full_open (rejects_at 0) 1000 (5 / 100) [3, 2, 1, 0] []))) \<noteq> 4"
  by (simp add: force_full_open_def call_def rejects_at_def)

lemma touch_fingers_stopped:
  assumes "j < length fs" and "\<forall>i<j. w (length tr + i) = Returns True"
    and "w (length tr + j) \<noteq> Returns True"
  shows "touch_fingers w ov h fs tr =
           (w (length tr + j), tr @ take (Suc j) (map (\<lambda>f. HandMoveSingleMotor f ov h) fs))"
  using assms
proof (induction fs arbitrary: tr j)
  case Nil
  then show ?case by simp
next
  case (Cons f fs)
  let ?e = "HandMoveSingleMotor f ov h"
  show ?case
  proof (cases j)
    case 0
    with Cons.prems(3) show ?thesis
      by (cases "w (length tr)") (auto simp: call_def split: bool.splits)
  next
    case (Suc j')
    from Cons.prems(2) Suc have first: "w (length tr) = Returns True"
      using Cons.prems(2) [rule_format, of 0] by simp
    have a: "j' < length fs" using Cons.prems(1) Suc by simp
    have b: "\<forall>i<j'. w (length (tr @ [?e]) + i) = Returns True"
    proof (intro allI impI)
      fix i assume "i < j'"
      then have "Suc i < j" using Suc by simp
      from Cons.prems(2) [rule_format, OF this] show "w (length (tr @ [?e]) + i) = Returns True"
        by simp
    qed
    have c: "w (length (tr @ [?e]) + j') \<noteq> Returns True"
      using Cons.prems(3) Suc by simp
    from Cons.IH [OF a b c] first Suc show ?thesis
      by (simp add: call_def)
  qed
qed

lemma force_full_open_stopped:
  assumes "j \<le> length fs" and "\<forall>i<j. w (length tr + i) = Returns True"
    and "w (length tr + j) \<noteq> Returns True"
  shows "force_full_open w ov h fs tr =
           (w (length tr + j), tr @ take (Suc j) (full_open_sequence ov h fs))"
proof (cases j)
  case 0
  with assms(3) have "w (length tr) \<noteq> Returns True" by simp
  then have "force_full_open w ov h fs tr =
      (w (length tr), tr @ [HandSetAllMotors ov (max (20 / 100) h)])"
    by (cases "w (length tr)") (auto simp: force_full_open_def Let_def call_def split: bool.splits)
  with 0 show ?thesis by (simp add: full_open_sequence_def)
next
  case (Suc j')
  let ?e = "HandSetAllMotors ov (max (20 / 100) h)"
  let ?h2 = "max (4 / 100) (h * (5 / 10))"
  have first: "w (length tr) = Returns True"
    using assms(2) [rule_format, of 0] Suc by simp
  have a: "j' < length fs" using assms(1) Suc by simp
  have b: "\<forall>i<j'. w (length (tr @ [?e]) + i) = Returns True"
  proof (intro allI impI)
    fix i assume "i < j'"
    then have "Suc i < j" using Suc by simp
    from assms(2) [rule_format, OF this] show "w (length (tr @ [?e]) + i) = Returns True"
      by simp
  qed
  have c: "w (length (tr @ [?e]) + j') \<noteq> Returns True"
    using assms(3) Suc by simp
  have idx: "length (tr @ [?e]) + j' = length tr + j" using Suc by simp
  from touch_fingers_stopped [OF a b c, of ov ?h2]
  have t: "touch_fingers w ov ?h2 fs (tr @ [?e]) =
      (w (length tr + j), (tr @ [?e]) @ take (Suc j') (map (\<lambda>f. HandMoveSingleMotor f ov ?h2) fs))"
    unfolding idx .
  have take: "take (Suc j) (full_open_sequence ov h fs)
      = ?e # take (Suc j') (map (\<lambda>f. HandMoveSingleMotor f ov ?h2) fs)"
    using full_open_sequence_take_Suc [of j fs ov h] assms(1) Suc by simp
  from assms(3) have nt: "w (length tr + j) \<noteq> Returns True" .
  have "force_full_open w ov h fs tr =
      (w (length tr + j), (tr @ [?e]) @ take (Suc j') (map (\<lambda>f. HandMoveSingleMotor f ov ?h2) fs))"
    using first t nt
    by (cases "w (length tr + j)") (auto simp: force_full_open_def Let_def call_def split: bool.splits)
  with take show ?thesis by simp
qed

lemma first_unaccepted:
  fixes w :: world and base n :: nat
  assumes "\<not> (\<forall>i\<le>n. w (base + i) = Returns True)"
  shows "\<exists>j\<le>n. (\<forall>i<j. w (base + i) = Returns True) \<and> w (base + j) \<noteq> Returns True"
proof -
  from assms have "\<exists>j. j \<le> n \<and> w (base + j) \<noteq> Returns True" by blast
  then obtain j where j: "j \<le> n \<and> w (base + j) \<noteq> Returns True"
    and least: "\<forall>m<j. \<not> (m \<le> n \<and> w (base + m) \<noteq> Returns True)"
    using exists_least_iff [of "\<lambda>j. j \<le> n \<and> w (base + j) \<noteq> Returns True"] by blast
  have "\<forall>i<j. w (base + i) = Returns True"
  proof (intro allI impI)
    fix i assume "i < j"
    with j least show "w (base + i) = Returns True" by auto
  qed
  with j show ?thesis by blast
qed

text \<open>
  C5, amended: every invocation of the fully-open reinforcement sequence issues the
  commands of the sequence "all-motors, one single-motor command per finger index in
  order, all-motors" one after the other and stops right after the first command that
  does not return true (rejected by the hand, or interrupted): the commands issued are
  exactly the first \<open>k\<close> of the sequence, where the \<open>k - 1\<close> commands before the last
  one issued were accepted and, unless the whole sequence was issued, the last one
  issued was not; the outcome of the invocation is the outcome of the last command
  issued. So the whole sequence, with exactly 2 all-motor commands and as many
  single-motor commands as there are finger indices (4 for a set of 4), is issued
  exactly when no command before the last one fails, in particular whenever the
  invocation returns true. The function is the same in both routines.
\<close>

theorem C5_force_full_open_sequence:
  "(\<exists>k. 1 \<le> k \<and> k \<le> length fs + 2
        \<and> force_full_open w ov h fs tr =
            (w (length tr + (k - 1)), tr @ take k (full_open_sequence ov h fs))
        \<and> (\<forall>i<k - 1. w (length tr + i) = Returns True)
        \<and> (k < length fs + 2 \<longrightarrow> w (length tr + (k - 1)) \<noteq> Returns True)
        \<and> snd (force_full_open w ov h fs tr) = tr @ take k (full_open_sequence ov h fs)
        \<and> (fst (force_full_open w ov h fs tr) = Returns True \<longrightarrow> k = length fs + 2))
   \<and> ((\<forall>i\<le>length fs. w (length tr + i) = Returns True)
        \<longrightarrow> snd (force_full_open w ov h fs tr) = tr @ full_open_sequence ov h fs)
   \<and> length (filter is_all_motors_command (full_open_sequence ov h fs)) = 2
   \<and> length (filter is_single_motor_command (full_open_sequence ov h fs)) = length fs"
proof -
  let ?P = "\<lambda>k. 1 \<le> k \<and> k \<le> length fs + 2
        \<and> force_full_open w ov h fs tr =
            (w (length tr + (k - 1)), tr @ take k (full_open_sequence ov h fs))
        \<and> (\<forall>i<k - 1. w (length tr + i) = Returns True)
        \<and> (k < length fs + 2 \<longrightarrow> w (length tr + (k - 1)) \<noteq> Returns True)
        \<and> snd (force_full_open w ov h fs tr) = tr @ take k (full_open_sequence ov h fs)
        \<and> (fst (force_full_open w ov h fs tr) = Returns True \<longrightarrow> k = length fs + 2)"
  have whole: "snd (force_full_open w ov h fs tr) = tr @ full_open_sequence ov h fs"
    if "\<forall>i\<le>length fs. w (length tr + i) = Returns True"
    using force_full_open_accepted [OF that] by simp
  have "\<exists>k. ?P k"
  proof (cases "\<forall>i\<le>length fs. w (length tr + i) = Returns True")
    case True
    from force_full_open_accepted [OF True, of ov h]
    have ffo: "force_full_open w ov h fs tr =
        (w (length tr + (length fs + 2 - 1)), tr @ take (length fs + 2) (full_open_sequence ov h fs))"
      by (simp add: full_open_sequence_length)
    have "\<forall>i<length fs + 2 - 1. w (length tr + i) = Returns True"
      using True by simp
    with ffo have "?P (length fs + 2)" by simp
    then show ?thesis ..
  next
    case False
    from first_unaccepted [OF False] obtain j where j: "j \<le> length fs"
      and before: "\<forall>i<j. w (length tr + i) = Returns True"
      and stop: "w (length tr + j) \<noteq> Returns True"
      by blast
    from force_full_open_stopped [OF j before stop, of ov h]
    have ffo: "force_full_open w ov h fs tr =
        (w (length tr + (Suc j - 1)), tr @ take (Suc j) (full_open_sequence ov h fs))"
      by simp
    have "?P (Suc j)"
      using j before stop ffo by simp
    then show ?thesis ..
  qed
  with whole full_open_sequence_counts [of ov h fs] show ?thesis by blast
qed

theorem C5_force_full_open_sequence_witness:
  "snd (force_full_open (rejects_at 5) 1000 (5 / 100) [3, 2, 1, 0] []) =
     [HandSetAllMotors 1000 (1 / 5),
      HandMoveSingleMotor 3 1000 (1 / 25), HandMoveSingleMotor 2 1000 (1 / 25),
      HandMoveSingleMotor 1 1000 (1 / 25), HandMoveSingleMotor 0 1000 (1 / 25),
      HandSetAllMotors 1000 (1 / 5)]
   \<and> force_full_open (rejects_at 2) 1000 (5 / 100) [3, 2, 1, 0] [] =
       (Returns False,
        [HandSetAllMotors 1000 (1 / 5),
         HandMoveSingleMotor 3 1000 (1 / 25), HandMoveSingleMotor 2 1000 (1 / 25)])
   \<and> length (filter is_all_motors_command (full_open_sequence 1000 (5 / 100) [3, 2, 1, 0])) = 2
   \<and> length (filter is_single_motor_command (full_open_sequence 1000 (5 / 100) [3, 2, 1, 0])) = 4"
proof -
  have accepted: "\<forall>i\<le>length [3, 2, 1, 0 :: int]. rejects_at 5 (length ([] :: trace) + i) = Returns True"
    by (simp add: rejects_at_def)
  from C5_force_full_open_sequence [of "[3, 2, 1, 0]" "rejects_at 5" 1000 "5 / 100" "[]"] accepted
  have a: "snd (force_full_open (rejects_at 5) 1000 (5 / 100) [3, 2, 1, 0] []) =
          [] @ full_open_sequence 1000 (5 / 100) [3, 2, 1, 0]"
    and b: "length (filter is_all_motors_command (full_open_sequence 1000 (5 / 100) [3, 2, 1, 0])) = 2"
    and c: "length (filter is_single_motor_command (full_open_sequence 1000 (5 / 100) [3, 2, 1, 0])) = length [3, 2, 1, 0 :: int]"
    by blast+
  from C5_force_full_open_sequence [of "[3, 2, 1, 0]" "rejects_at 2" 1000 "5 / 100" "[]"]
  obtain k where k: "1 \<le> k" "k \<le> length [3, 2, 1, 0 :: int] + 2"
    and ffo: "force_full_open (rejects_at 2) 1000 (5 / 100) [3, 2, 1, 0] [] =
            (rejects_at 2 (length ([] :: trace) + (k - 1)),
             [] @ take k (full_open_sequence 1000 (5 / 100) [3, 2, 1, 0]))"
    and before: "\<forall>i<k - 1. rejects_at 2 (length ([] :: trace) + i) = Returns True"
    and stop: "k < length [3, 2, 1, 0 :: int] + 2
                 \<longrightarrow> rejects_at 2 (length ([] :: trace) + (k - 1)) \<noteq> Returns True"
    by blast
  have "k - 1 \<le> 2"
  proof (rule ccontr)
    assume "\<not> k - 1 \<le> 2"
    then have "2 < k - 1" by simp
    with before have "rejects_at 2 (length ([] :: trace) + 2) = Returns True" by blast
    then show False by (simp add: rejects_at_def)
  qed
  with k have "k < length [3, 2, 1, 0 :: int] + 2" by simp
  with stop have "rejects_at 2 (k - 1) \<noteq> Returns True" by simp
  then have "k - 1 = 2" by (simp add: rejects_at_def split: if_splits)
  with k have k3: "k = 3" by simp
  have d: "force_full_open (rejects_at 2) 1000 (5 / 100) [3, 2, 1, 0] [] =
       (Returns False,
        [HandSetAllMotors 1000 (1 / 5),
         HandMoveSingleMotor 3 1000 (1 / 25), HandMoveSingleMotor 2 1000 (1 / 25)])"
    unfolding ffo k3 by (simp add: rejects_at_def full_open_sequence_def eval_nat_numeral)
  from a b c d show ?thesis by (simp add: full_open_sequence_def)
qed

section \<open>Properties of the routines\<close>

text \<open>
  C4: in every run of the note test or of the practice routine in which
  \<^verbatim>\<open>arm.connect()\<close> returns true and the move to the play-centre pose returns false
  (and the operator does not interrupt the two cleanup calls that follow), the routine
  returns false, the hand is never connected nor commanded, and the arm is disconnected
  in cleanup, after the safety move to the home pose.
\<close>

theorem C4_center_move_rejected:
  assumes "w 0 = Returns True" and "w 1 = Returns False"
    and "w 2 \<noteq> Interrupt" and "w 3 \<noteq> Interrupt"
  shows "run_test w cfg loops =
           (Returns False,
            [ArmConnect,
             ArmMoveJoints (cfg_center_joints cfg) (cfg_arm_speed cfg) (cfg_arm_acc cfg) True,
             ArmMoveJoints (cfg_home_joints cfg) (cfg_arm_speed cfg) (cfg_arm_acc cfg) True,
             ArmDisconnect])
     \<and> run_continuous_practice fuel w cfg max_loops =
           Some (Returns False,
            [ArmConnect,
             ArmMoveJoints (cfg_center_joints cfg) (cfg_arm_speed cfg) (cfg_arm_acc cfg) True,
             ArmMoveJoints (cfg_home_joints cfg) (cfg_arm_speed cfg) (cfg_arm_acc cfg) True,
             ArmDisconnect])
     \<and> \<not> list_ex is_hand_call
           [ArmConnect,
             ArmMoveJoints (cfg_center_joints cfg) (cfg_arm_speed cfg) (cfg_arm_acc cfg) True,
             ArmMoveJoints (cfg_home_joints cfg) (cfg_arm_speed cfg) (cfg_arm_acc cfg) True,
             ArmDisconnect]"
proof -
  let ?center = "ArmMoveJoints (cfg_center_joints cfg) (cfg_arm_speed cfg) (cfg_arm_acc cfg) True"
  let ?home = "ArmMoveJoints (cfg_home_joints cfg) (cfg_arm_speed cfg) (cfg_arm_acc cfg) True"
  obtain b2 b3 where w2: "w 2 = Returns b2" and w3: "w 3 = Returns b3"
    using assms(3,4) by (cases "w 2"; cases "w 3") auto
  have try_t: "test_try w cfg loops =
      (Returns False, \<lparr>t_arm_ok = True, t_hand_ok = False, test_ok = False\<rparr>, [ArmConnect, ?center])"
    using assms(1,2) by (simp add: test_try_def call_def)
  have fin_t: "test_finally w cfg \<lparr>t_arm_ok = True, t_hand_ok = False, test_ok = False\<rparr> [ArmConnect, ?center]
      = (Returns b3, [ArmConnect, ?center, ?home, ArmDisconnect])"
    using w2 w3 by (simp add: test_finally_def call_def Let_def numeral_2_eq_2 numeral_3_eq_3)
  have t: "run_test w cfg loops = (Returns False, [ArmConnect, ?center, ?home, ArmDisconnect])"
    by (simp add: run_test_def try_t fin_t)
  have try_p: "practice_try fuel w cfg max_loops =
      Some (Returns False, \<lparr>arm_ok = True, hand_ok = False, completed = False\<rparr>, [ArmConnect, ?center])"
    using assms(1,2) by (simp add: practice_try_def call_def)
  have fin_p: "practice_finally w cfg \<lparr>arm_ok = True, hand_ok = False, completed = False\<rparr> False
        [ArmConnect, ?center]
      = (Returns b3, [ArmConnect, ?center, ?home, ArmDisconnect])"
    using w2 w3 by (simp add: practice_finally_def call_def Let_def numeral_2_eq_2 numeral_3_eq_3)
  have p: "run_continuous_practice fuel w cfg max_loops =
      Some (Returns False, [ArmConnect, ?center, ?home, ArmDisconnect])"
    by (simp add: run_continuous_practice_def try_p fin_p)
  from t p show ?thesis by simp
qed

theorem C4_center_move_rejected_witness:
  "run_test (rejects_at 1) default_config 2 =
     (Returns False,
      [ArmConnect, ArmMoveJoints [0, -17, -28, 0, 75, -45] 80 800 True,
       ArmMoveJoints [0, 0, 0, 0, 90, -45] 80 800 True, ArmDisconnect])
   \<and> run_continuous_practice 0 (rejects_at 1) default_config 0 =
     Some (Returns False,
      [ArmConnect, ArmMoveJoints [0, -17, -28, 0, 75, -45] 80 800 True,
       ArmMoveJoints [0, 0, 0, 0, 90, -45] 80 800 True, ArmDisconnect])"
proof -
  have h: "rejects_at 1 0 = Returns True" "rejects_at 1 1 = Returns False"
    "rejects_at 1 2 \<noteq> Interrupt" "rejects_at 1 3 \<noteq> Interrupt"
    by (simp_all add: rejects_at_def)
  from C4_center_move_rejected [OF h, of default_config 2 0 0]
  show ?thesis by (simp add: default_config_def)
qed

lemma press_release_accepted:
  assumes "\<forall>i<2 * length fs. w (length tr + i) = Returns True"
  shows "\<exists>tr'. press_release w s ov ph rh fs tr = (Returns True, tr')
           \<and> length tr' = length tr + 2 * length fs"
  using assms
proof (induction fs arbitrary: tr)
  case Nil
  then show ?case by simp
next
  case (Cons f fs)
  let ?tr2 = "tr @ [HandMoveSingleMotor f s ph, HandMoveSingleMotor f ov rh]"
  from Cons.prems have w0: "w (length tr) = Returns True" and w1: "w (Suc (length tr)) = Returns True"
    using Cons.prems [rule_format, of 0] Cons.prems [rule_format, of 1] by simp_all
  have "\<forall>i<2 * length fs. w (length ?tr2 + i) = Returns True"
  proof (intro allI impI)
    fix i assume "i < 2 * length fs"
    then have "i + 2 < 2 * length (f # fs)" by simp
    from Cons.prems [rule_format, OF this] show "w (length ?tr2 + i) = Returns True"
      by (simp add: add.commute)
  qed
  from Cons.IH [OF this] obtain tr' where
    "press_release w s ov ph rh fs ?tr2 = (Returns True, tr')" "length tr' = length ?tr2 + 2 * length fs"
    by blast
  with w0 w1 show ?case by (simp add: call_def)
qed

lemma press_release_interrupted:
  assumes "j < 2 * length fs" and "\<forall>i<j. w (length tr + i) = Returns True"
    and "w (length tr + j) = Interrupt"
  shows "\<exists>tr'. press_release w s ov ph rh fs tr = (Interrupt, tr') \<and> length tr' = length tr + j + 1"
  using assms
proof (induction fs arbitrary: tr j)
  case Nil
  then show ?case by simp
next
  case (Cons f fs)
  let ?tr2 = "tr @ [HandMoveSingleMotor f s ph, HandMoveSingleMotor f ov rh]"
  consider "j = 0" | "j = 1" | "2 \<le> j" by linarith
  then show ?case
  proof cases
    case 1
    with Cons.prems(3) show ?thesis by (simp add: call_def)
  next
    case 2
    with Cons.prems(2) [rule_format, of 0] Cons.prems(3) show ?thesis by (simp add: call_def)
  next
    case 3
    from 3 Cons.prems(2) [rule_format, of 0] Cons.prems(2) [rule_format, of 1]
    have w0: "w (length tr) = Returns True" and w1: "w (Suc (length tr)) = Returns True"
      by simp_all
    have a: "j - 2 < 2 * length fs" using 3 Cons.prems(1) by simp
    have b: "\<forall>i<j - 2. w (length ?tr2 + i) = Returns True"
    proof (intro allI impI)
      fix i assume "i < j - 2"
      then have "i + 2 < j" by simp
      from Cons.prems(2) [rule_format, OF this] show "w (length ?tr2 + i) = Returns True"
        by (simp add: add.commute)
    qed
    have "length ?tr2 + (j - 2) = length tr + j"
      using 3 by simp
    with Cons.prems(3) have c: "w (length ?tr2 + (j - 2)) = Interrupt"
      by (simp only:)
    from Cons.IH [OF a b c] obtain tr' where
      "press_release w s ov ph rh fs ?tr2 = (Interrupt, tr')" "length tr' = length ?tr2 + (j - 2) + 1"
      by blast
    with w0 w1 3 show ?thesis by (simp add: call_def)
  qed
qed

lemma practice_loop_interrupted:
  assumes "cfg_finger_indices cfg \<noteq> []"
    and "\<forall>i<j. w (length tr + i) = Returns True"
    and "w (length tr + j) = Interrupt"
    and "0 < max_loops \<longrightarrow> int j < 2 * int (length (cfg_finger_indices cfg)) * (max_loops - loop_idx)"
    and "j div (2 * length (cfg_finger_indices cfg)) < fuel"
  shows "\<exists>tr'. practice_loop fuel w cfg max_loops strike loop_idx tr = Some (Interrupt, tr')
           \<and> length tr' = length tr + j + 1"
  using assms(2-5)
proof (induction fuel arbitrary: j tr loop_idx)
  case 0
  then show ?case by simp
next
  case (Suc fuel)
  let ?fs = "cfg_finger_indices cfg"
  let ?n = "length ?fs"
  let ?press = "press_release w strike (cfg_open_value cfg) (cfg_press_hold cfg) (cfg_release_hold cfg) ?fs tr"
  from assms(1) have npos: "0 < ?n" by simp
  have guard: "\<not> (0 < max_loops \<and> max_loops \<le> loop_idx)"
  proof
    assume g: "0 < max_loops \<and> max_loops \<le> loop_idx"
    then have "2 * int ?n * (max_loops - loop_idx) \<le> 0"
      by (simp add: mult_nonneg_nonpos)
    with g Suc.prems(3) show False by simp
  qed
  show ?case
  proof (cases "j < 2 * ?n")
    case True
    from press_release_interrupted [OF True Suc.prems(1,2)] obtain tr' where
      "?press = (Interrupt, tr')" "length tr' = length tr + j + 1"
      by blast
    with guard show ?thesis by simp
  next
    case False
    then have ge: "2 * ?n \<le> j" by simp
    have "\<forall>i<2 * ?n. w (length tr + i) = Returns True"
      using Suc.prems(1) ge by simp
    from press_release_accepted [OF this] obtain tr1 where
      pr: "?press = (Returns True, tr1)" and len1: "length tr1 = length tr + 2 * ?n"
      by blast
    have a: "\<forall>i<j - 2 * ?n. w (length tr1 + i) = Returns True"
    proof (intro allI impI)
      fix i assume "i < j - 2 * ?n"
      then have "2 * ?n + i < j" by simp
      from Suc.prems(1) [rule_format, OF this] show "w (length tr1 + i) = Returns True"
        by (simp add: len1 add.assoc)
    qed
    have "length tr1 + (j - 2 * ?n) = length tr + j"
      using ge len1 by simp
    with Suc.prems(2) have b: "w (length tr1 + (j - 2 * ?n)) = Interrupt"
      by (simp only:)
    have c: "0 < max_loops \<longrightarrow> int (j - 2 * ?n) < 2 * int ?n * (max_loops - (loop_idx + 1))"
    proof
      assume "0 < max_loops"
      with Suc.prems(3) have "int j < 2 * int ?n * (max_loops - loop_idx)" by blast
      moreover have "2 * int ?n * (max_loops - (loop_idx + 1)) = 2 * int ?n * (max_loops - loop_idx) - 2 * int ?n"
        by (simp add: algebra_simps)
      moreover have "int (j - 2 * ?n) = int j - 2 * int ?n"
        using ge by simp
      ultimately show "int (j - 2 * ?n) < 2 * int ?n * (max_loops - (loop_idx + 1))"
        by simp
    qed
    have "j div (2 * ?n) = Suc ((j - 2 * ?n) div (2 * ?n))"
      using npos ge by (simp add: le_div_geq)
    with Suc.prems(4) have d: "(j - 2 * ?n) div (2 * ?n) < fuel" by simp
    from Suc.IH [OF a b c d] obtain tr' where
      "practice_loop fuel w cfg max_loops strike (loop_idx + 1) tr1 = Some (Interrupt, tr')"
      "length tr' = length tr1 + (j - 2 * ?n) + 1"
      by blast
    with guard pr len1 ge show ?thesis by simp
  qed
qed

lemma practice_loop_more_fuel:
  "practice_loop fuel w cfg max_loops strike loop_idx tr = Some r
   \<Longrightarrow> practice_loop (Suc fuel) w cfg max_loops strike loop_idx tr = Some r"
proof (induction fuel arbitrary: loop_idx tr)
  case 0
  then show ?case by simp
next
  case (Suc fuel)
  show ?case
  proof (cases "0 < max_loops \<and> max_loops \<le> loop_idx")
    case True
    with Suc.prems show ?thesis by simp
  next
    case False
    obtain res tr1 where pr: "press_release w strike (cfg_open_value cfg) (cfg_press_hold cfg)
        (cfg_release_hold cfg) (cfg_finger_indices cfg) tr = (res, tr1)"
      by (cases "press_release w strike (cfg_open_value cfg) (cfg_press_hold cfg)
        (cfg_release_hold cfg) (cfg_finger_indices cfg) tr")
    show ?thesis
    proof (cases "res = Returns True")
      case True
      with False pr Suc.prems have "practice_loop fuel w cfg max_loops strike (loop_idx + 1) tr1 = Some r"
        by (auto split: if_splits)
      then have "practice_loop (Suc fuel) w cfg max_loops strike (loop_idx + 1) tr1 = Some r"
        by (rule Suc.IH)
      with False pr True show ?thesis by (auto split: if_splits)
    next
      case nt: False
      with False pr Suc.prems show ?thesis
        by (cases res) (auto split: bool.splits if_splits)
    qed
  qed
qed

text \<open>
  The fuel is a device of the model only: more fuel never changes a result
  (\<open>practice_loop_more_fuel\<close>), and with a positive loop bound the loop returns as soon
  as the fuel exceeds the number of iterations left.
\<close>

lemma practice_loop_bounded_returns:
  assumes "0 < max_loops" and "nat (max_loops - loop_idx) < fuel"
  shows "\<exists>r. practice_loop fuel w cfg max_loops strike loop_idx tr = Some r"
  using assms(2)
proof (induction fuel arbitrary: loop_idx tr)
  case 0
  then show ?case by simp
next
  case (Suc fuel)
  show ?case
  proof (cases "max_loops \<le> loop_idx")
    case True
    with assms(1) show ?thesis by simp
  next
    case False
    obtain res tr1 where pr: "press_release w strike (cfg_open_value cfg) (cfg_press_hold cfg)
        (cfg_release_hold cfg) (cfg_finger_indices cfg) tr = (res, tr1)"
      by (cases "press_release w strike (cfg_open_value cfg) (cfg_press_hold cfg)
        (cfg_release_hold cfg) (cfg_finger_indices cfg) tr")
    show ?thesis
    proof (cases "res = Returns True")
      case True
      from False Suc.prems have "nat (max_loops - (loop_idx + 1)) < fuel" by simp
      from Suc.IH [OF this] obtain r where
        "practice_loop fuel w cfg max_loops strike (loop_idx + 1) tr1 = Some r" by blast
      with False pr True show ?thesis by simp
    next
      case nt: False
      with False pr show ?thesis
        by (cases res) (auto split: bool.splits)
    qed
  qed
qed

lemma practice_finally_after_interrupt:
  assumes "hand_ok flags" and "arm_ok flags"
    and quiet: "\<forall>i<length (cfg_finger_indices cfg) + 5. w (length tr + i) \<noteq> Interrupt"
  shows "\<exists>k b. 1 \<le> k \<and> k \<le> length (cfg_finger_indices cfg) + 2
     \<and> practice_finally w cfg flags True tr =
         (Returns b,
          tr @ take k (full_open_sequence (cfg_open_value cfg)
                         (max (cfg_press_hold cfg) (cfg_release_hold cfg)) (cfg_finger_indices cfg))
             @ [HandDisconnect,
                ArmMoveJoints (cfg_home_joints cfg) (cfg_arm_speed cfg) (cfg_arm_acc cfg) True,
                ArmDisconnect])
     \<and> ((\<forall>i\<le>length (cfg_finger_indices cfg). w (length tr + i) = Returns True)
           \<longrightarrow> k = length (cfg_finger_indices cfg) + 2)"
proof -
  let ?fs = "cfg_finger_indices cfg"
  let ?n = "length ?fs"
  let ?full = "full_open_sequence (cfg_open_value cfg) (max (cfg_press_hold cfg) (cfg_release_hold cfg)) ?fs"
  let ?ffo = "force_full_open w (cfg_open_value cfg) (max (cfg_press_hold cfg) (cfg_release_hold cfg)) ?fs tr"
  let ?home = "ArmMoveJoints (cfg_home_joints cfg) (cfg_arm_speed cfg) (cfg_arm_acc cfg) True"
  from force_full_open_prefix [of ?fs w "cfg_open_value cfg" "max (cfg_press_hold cfg) (cfg_release_hold cfg)" tr]
  obtain k where k1: "1 \<le> k" and k2: "k \<le> ?n + 2"
    and tr1: "snd ?ffo = tr @ take k ?full"
    and intr: "fst ?ffo = Interrupt \<longrightarrow> w (length tr + k - 1) = Interrupt"
    by blast
  have "w (length tr + (k - 1)) \<noteq> Interrupt"
    using quiet [rule_format, of "k - 1"] k2 by simp
  with intr k1 have "fst ?ffo \<noteq> Interrupt" by auto
  then obtain b0 where b0: "fst ?ffo = Returns b0" by (cases "fst ?ffo") auto
  have ffo: "?ffo = (Returns b0, tr @ take k ?full)"
    using b0 tr1 by (simp add: prod_eq_iff)
  have len1: "length (tr @ take k ?full) = length tr + k"
    using k2 by (simp add: full_open_sequence_length)
  have q: "w (length tr + i) \<noteq> Interrupt" if "i < ?n + 5" for i
    using quiet that by blast
  have "w (length tr + k) \<noteq> Interrupt" "w (length tr + (k + 1)) \<noteq> Interrupt"
    "w (length tr + (k + 2)) \<noteq> Interrupt"
    using k2 by (intro q; simp)+
  then obtain b1 b2 b3 where
    w1: "w (length tr + k) = Returns b1" and w2: "w (Suc (length tr + k)) = Returns b2"
    and w3: "w (Suc (Suc (length tr + k))) = Returns b3"
    by (cases "w (length tr + k)"; cases "w (length tr + (k + 1))"; cases "w (length tr + (k + 2))") auto
  have fin: "practice_finally w cfg flags True tr =
      (Returns b3, tr @ take k ?full @ [HandDisconnect, ?home, ArmDisconnect])"
    using assms(1,2) w1 w2 w3 len1
    by (simp add: practice_finally_def Let_def ffo call_def)
  have "k = ?n + 2" if "\<forall>i\<le>?n. w (length tr + i) = Returns True"
  proof -
    from force_full_open_accepted [OF that] tr1 have "take k ?full = ?full" by simp
    then have "length (take k ?full) = length ?full" by simp
    with k2 show ?thesis by (simp add: full_open_sequence_length)
  qed
  with k1 k2 fin show ?thesis by blast
qed

text \<open>
  C3: take any run of the continuous practice routine in which every call before the
  practice loop returns true (arm connected and at the play centre, hand connected and
  opened), the calls of the practice loop return true until one of them, call number
  \<open>N\<close>, is cut short by a \<^verbatim>\<open>KeyboardInterrupt\<close> (inside the loop bound when one is
  set), and no second interrupt arrives during cleanup. Given fuel for the iterations
  before the interrupt, the routine returns true. After the interrupted call the
  cleanup runs the fully-open reinforcement sequence (the whole of it when the hand
  accepts its commands, and up to the first rejected command otherwise), disconnects
  the hand, moves the arm to the home pose and then disconnects the arm, whatever the
  value of \<^verbatim>\<open>return_home\<close>.
\<close>

theorem C3_interrupt_during_practice_loop:
  assumes fingers: "cfg_finger_indices cfg \<noteq> []"
    and in_loop: "length (cfg_finger_indices cfg) + 5 \<le> N"
    and bounded: "0 < max_loops \<longrightarrow>
         int N < int (length (cfg_finger_indices cfg)) + 5
                   + 2 * int (length (cfg_finger_indices cfg)) * max_loops"
    and accepted: "\<forall>i<N. w i = Returns True"
    and interrupt: "w N = Interrupt"
    and quiet: "\<forall>i. N < i \<and> i \<le> N + length (cfg_finger_indices cfg) + 5 \<longrightarrow> w i \<noteq> Interrupt"
    and fuel: "(N - (length (cfg_finger_indices cfg) + 5)) div (2 * length (cfg_finger_indices cfg)) < fuel"
  shows "\<exists>pre k. length pre = N + 1 \<and> 1 \<le> k \<and> k \<le> length (cfg_finger_indices cfg) + 2
     \<and> run_continuous_practice fuel w cfg max_loops =
         Some (Returns True,
           pre @ take k (full_open_sequence (cfg_open_value cfg)
                           (max (cfg_press_hold cfg) (cfg_release_hold cfg)) (cfg_finger_indices cfg))
               @ [HandDisconnect,
                  ArmMoveJoints (cfg_home_joints cfg) (cfg_arm_speed cfg) (cfg_arm_acc cfg) True,
                  ArmDisconnect])
     \<and> ((\<forall>i. N < i \<and> i \<le> N + length (cfg_finger_indices cfg) + 1 \<longrightarrow> w i = Returns True)
           \<longrightarrow> k = length (cfg_finger_indices cfg) + 2)"
proof -
  let ?fs = "cfg_finger_indices cfg"
  let ?n = "length ?fs"
  let ?hold = "max (cfg_press_hold cfg) (cfg_release_hold cfg)"
  let ?full = "full_open_sequence (cfg_open_value cfg) ?hold ?fs"
  let ?center = "ArmMoveJoints (cfg_center_joints cfg) (cfg_arm_speed cfg) (cfg_arm_acc cfg) True"
  let ?home = "ArmMoveJoints (cfg_home_joints cfg) (cfg_arm_speed cfg) (cfg_arm_acc cfg) True"
  let ?strike = "compute_strike_value (cfg_open_value cfg) (cfg_close_reference cfg) (cfg_down_fraction cfg)"
  let ?tr3 = "[ArmConnect, ?center, HandConnect]"
  let ?tr4 = "?tr3 @ ?full"
  let ?j = "N - (?n + 5)"
  have acc: "w i = Returns True" if "i < N" for i
    using accepted that by blast
  have w0: "w 0 = Returns True" and w1: "w (Suc 0) = Returns True"
    and w2: "w (Suc (Suc 0)) = Returns True"
    using in_loop by (intro acc; simp)+
  have "\<forall>i\<le>?n. w (length ?tr3 + i) = Returns True"
    using in_loop by (intro allI impI acc) simp
  from force_full_open_accepted [OF this, of "cfg_open_value cfg" ?hold]
  have "force_full_open w (cfg_open_value cfg) ?hold ?fs ?tr3 = (w (length ?tr3 + ?n + 1), ?tr4)" .
  moreover have "w (length ?tr3 + ?n + 1) = Returns True"
    using in_loop by (intro acc) simp
  ultimately have ffo: "force_full_open w (cfg_open_value cfg) ?hold ?fs ?tr3 = (Returns True, ?tr4)"
    by simp
  have len4: "length ?tr4 = ?n + 5"
    by (simp add: full_open_sequence_length)
  have a: "\<forall>i<?j. w (length ?tr4 + i) = Returns True"
    unfolding len4 using in_loop by (intro allI impI acc) simp
  have b: "w (length ?tr4 + ?j) = Interrupt"
    unfolding len4 using in_loop interrupt by simp
  have c: "0 < max_loops \<longrightarrow> int ?j < 2 * int ?n * (max_loops - 0)"
    using bounded in_loop by auto
  from practice_loop_interrupted [OF fingers a b c fuel, of ?strike] obtain tr5 where
    loop: "practice_loop fuel w cfg max_loops ?strike 0 ?tr4 = Some (Interrupt, tr5)"
    and len5: "length tr5 = N + 1"
    unfolding len4 using in_loop by auto
  have try_p: "practice_try fuel w cfg max_loops =
      Some (Interrupt, \<lparr>arm_ok = True, hand_ok = True, completed = False\<rparr>, tr5)"
    using w0 w1 w2 ffo loop by (simp add: practice_try_def call_def)
  have q: "\<forall>i<?n + 5. w (length tr5 + i) \<noteq> Interrupt"
    unfolding len5 using quiet by simp
  from practice_finally_after_interrupt [of "\<lparr>arm_ok = True, hand_ok = True, completed = True\<rparr>", OF _ _ q]
  obtain k b where k: "1 \<le> k" "k \<le> ?n + 2"
    and fin: "practice_finally w cfg \<lparr>arm_ok = True, hand_ok = True, completed = True\<rparr> True tr5 =
         (Returns b, tr5 @ take k ?full @ [HandDisconnect, ?home, ArmDisconnect])"
    and whole: "(\<forall>i\<le>?n. w (length tr5 + i) = Returns True) \<longrightarrow> k = ?n + 2"
    by auto
  have run: "run_continuous_practice fuel w cfg max_loops =
      Some (Returns True, tr5 @ take k ?full @ [HandDisconnect, ?home, ArmDisconnect])"
    by (simp add: run_continuous_practice_def try_p fin)
  have "k = ?n + 2" if "\<forall>i. N < i \<and> i \<le> N + ?n + 1 \<longrightarrow> w i = Returns True"
  proof -
    have "\<forall>i\<le>?n. w (length tr5 + i) = Returns True"
      unfolding len5 using that by simp
    with whole show ?thesis by blast
  qed
  with len5 k run show ?thesis by blast
qed


theorem C3_interrupt_during_practice_loop_witness:
  "\<not> cfg_return_home default_config
   \<and> (\<exists>pre. length pre = 13
        \<and> run_continuous_practice 1 (interrupted_at 12) default_config 0 =
            Some (Returns True,
              pre @ [HandSetAllMotors 1000 (1 / 5),
                     HandMoveSingleMotor 3 1000 (1 / 25), HandMoveSingleMotor 2 1000 (1 / 25),
                     HandMoveSingleMotor 1 1000 (1 / 25), HandMoveSingleMotor 0 1000 (1 / 25),
                     HandSetAllMotors 1000 (1 / 5),
                     HandDisconnect,
                     ArmMoveJoints [0, 0, 0, 0, 90, -45] 80 800 True,
                     ArmDisconnect]))"
proof -
  have fingers: "cfg_finger_indices default_config \<noteq> []"
    and in_loop: "length (cfg_finger_indices default_config) + 5 \<le> 12"
    and bounded: "0 < (0::int) \<longrightarrow>
         int 12 < int (length (cfg_finger_indices default_config)) + 5
                   + 2 * int (length (cfg_finger_indices default_config)) * 0"
    and accepted: "\<forall>i<12. interrupted_at 12 i = Returns True"
    and interrupt: "interrupted_at 12 12 = Interrupt"
    and quiet: "\<forall>i. 12 < i \<and> i \<le> 12 + length (cfg_finger_indices default_config) + 5
         \<longrightarrow> interrupted_at 12 i \<noteq> Interrupt"
    and fuel: "(12 - (length (cfg_finger_indices default_config) + 5))
         div (2 * length (cfg_finger_indices default_config)) < 1"
    by (simp_all add: default_config_def interrupted_at_def)
  have after: "\<forall>i. 12 < i \<and> i \<le> 12 + length (cfg_finger_indices default_config) + 1
         \<longrightarrow> interrupted_at 12 i = Returns True"
    by (simp add: interrupted_at_def)
  from C3_interrupt_during_practice_loop [OF fingers in_loop bounded accepted interrupt quiet fuel] after
  obtain pre k where "length pre = 12 + 1" "k = length (cfg_finger_indices default_config) + 2"
    "run_continuous_practice 1 (interrupted_at 12) default_config 0 =
         Some (Returns True,
           pre @ take k (full_open_sequence (cfg_open_value default_config)
                           (max (cfg_press_hold default_config) (cfg_release_hold default_config))
                           (cfg_finger_indices default_config))
               @ [HandDisconnect,
                  ArmMoveJoints (cfg_home_joints default_config) (cfg_arm_speed default_config)
                    (cfg_arm_acc default_config) True,
                  ArmDisconnect])"
    by blast
  then show ?thesis
    by (auto simp: default_config_def full_open_sequence_def)
qed

section \<open>Properties of the hand driver\<close>

lemma single_motor_command_slots:
  assumes "0 \<le> i" and "i < 6"
  shows "length (single_motor_command i t) = 6
    \<and> single_motor_command i t ! nat i = t AND 65535
    \<and> 0 \<le> t AND 65535 \<and> t AND 65535 \<le> 65535
    \<and> (\<forall>j<6. j \<noteq> nat i \<longrightarrow> single_motor_command i t ! j = 65535)"
  using assms by (simp add: single_motor_command_def)

lemma normalized_single_motor_command:
  "map (\<lambda>v. v AND 65535) ((replicate (nat MOTOR_COUNT) (NO_ACTION_VALUE AND 65535))[nat i := t AND 65535])
     = single_motor_command i t"
  by (simp add: single_motor_command_def MOTOR_COUNT_def NO_ACTION_VALUE_def map_update)

lemma move_single_motor_connected:
  assumes "0 \<le> i" and "i < 6" and "instrument_set d"
  shows "move_single_motor b i t h NO_ACTION_VALUE d =
     (if b (length (attempts d))
      then (True, d\<lparr>attempts := attempts d
              @ [\<lparr>address = 1486, register_values = single_motor_command i t, completed_ok = True\<rparr>]\<rparr>)
      else if b (Suc (length (attempts d)))
      then (True, d\<lparr>attempts := attempts d
              @ [\<lparr>address = 1486, register_values = single_motor_command i t, completed_ok = False\<rparr>,
                 \<lparr>address = 743, register_values = single_motor_command i t, completed_ok = True\<rparr>]\<rparr>)
      else (False, d\<lparr>attempts := attempts d
              @ [\<lparr>address = 1486, register_values = single_motor_command i t, completed_ok = False\<rparr>,
                 \<lparr>address = 743, register_values = single_motor_command i t, completed_ok = False\<rparr>]\<rparr>))"
proof -
  let ?cmd = "(replicate (nat MOTOR_COUNT) (NO_ACTION_VALUE AND 65535))[nat i := t AND 65535]"
  have len: "int (length ?cmd) = MOTOR_COUNT"
    by (simp add: MOTOR_COUNT_def)
  have cands: "address_candidates ANGLE_SET_BASE_ADDR = [1486, 743]"
    by (simp add: address_candidates_def ANGLE_SET_BASE_ADDR_def)
  have "set_motor_targets b ?cmd d =
      try_candidates b [1486, 743] (single_motor_command i t) d"
    using assms(3) len
    by (simp only: set_motor_targets_def write_registers_with_fallback_def Let_def cands
        normalized_single_motor_command if_False not_not if_True simp_thms)
  moreover have "\<not> (i < 0 \<or> MOTOR_COUNT \<le> i)"
    using assms(1,2) by (simp add: MOTOR_COUNT_def)
  ultimately show ?thesis
    by (simp add: move_single_motor_def Let_def)
qed

lemma move_single_motor_not_connected:
  assumes "0 \<le> i" and "i < 6" and "\<not> instrument_set d"
  shows "move_single_motor b i t h nav d = (False, d)"
  using assms
  by (simp add: move_single_motor_def set_motor_targets_def write_registers_with_fallback_def
      MOTOR_COUNT_def Let_def)

lemma move_single_motor_out_of_range:
  assumes "i < 0 \<or> 6 \<le> i"
  shows "move_single_motor b i t h nav d = (False, d)"
  using assms by (auto simp add: move_single_motor_def MOTOR_COUNT_def)

text \<open>
  C10 as stated fails: a call with a motor index in [0,5] does not always issue exactly
  one register write. On a driver that is not connected it issues none and returns
  false; on a connected driver whose first write raises, the same six values are
  written a second time, at the halved address.
\<close>

theorem C10_not_always_one_write:
  "move_single_motor (bus_rejects_first 0) 0 500 (1 / 4) NO_ACTION_VALUE fresh_driver
     = (False, \<lparr>instrument_set = False, attempts = []\<rparr>)
   \<and> move_single_motor (bus_rejects_first 1) 0 500 (1 / 4) NO_ACTION_VALUE connected_driver
     = (True, \<lparr>instrument_set = True,
               attempts =
                 [\<lparr>address = 1486, register_values = [500, 65535, 65535, 65535, 65535, 65535],
                    completed_ok = False\<rparr>,
                  \<lparr>address = 743, register_values = [500, 65535, 65535, 65535, 65535, 65535],
                    completed_ok = True\<rparr>]\<rparr>)"
  by (simp add: move_single_motor_def set_motor_targets_def write_registers_with_fallback_def
      address_candidates_def MOTOR_COUNT_def NO_ACTION_VALUE_def ANGLE_SET_BASE_ADDR_def
      fresh_driver_def connected_driver_def bus_rejects_first_def Let_def eval_nat_numeral)

text \<open>
  C10, amended: for a motor index in [0,5] on a connected driver,
  \<^verbatim>\<open>move_single_motor\<close> attempts the combined six-slot write at register address
  1486 and, only if that attempt raises, once more at address 743; every attempt
  carries the same six values, the target masked to [0,65535] in the slot of the motor
  index and the no-action sentinel 0xFFFF in the other five slots, so no other motor's
  target is changed; the call returns true exactly when one attempt completed, which is
  then the last one and the only completed one. On a driver that is not connected it
  returns false without any write, and for a motor index outside [0,5] it returns false
  without any write.
\<close>

theorem C10_move_single_motor:
  "(0 \<le> i \<and> i < 6 \<and> instrument_set d \<longrightarrow>
      move_single_motor b i t h NO_ACTION_VALUE d =
       (if b (length (attempts d))
        then (True, d\<lparr>attempts := attempts d
                @ [\<lparr>address = 1486, register_values = single_motor_command i t, completed_ok = True\<rparr>]\<rparr>)
        else if b (Suc (length (attempts d)))
        then (True, d\<lparr>attempts := attempts d
                @ [\<lparr>address = 1486, register_values = single_motor_command i t, completed_ok = False\<rparr>,
                   \<lparr>address = 743, register_values = single_motor_command i t, completed_ok = True\<rparr>]\<rparr>)
        else (False, d\<lparr>attempts := attempts d
                @ [\<lparr>address = 1486, register_values = single_motor_command i t, completed_ok = False\<rparr>,
                   \<lparr>address = 743, register_values = single_motor_command i t, completed_ok = False\<rparr>]\<rparr>)))
   \<and> (0 \<le> i \<and> i < 6 \<longrightarrow>
        length (single_motor_command i t) = 6
        \<and> single_motor_command i t ! nat i = t AND 65535
        \<and> 0 \<le> t AND 65535 \<and> t AND 65535 \<le> 65535
        \<and> (\<forall>j<6. j \<noteq> nat i \<longrightarrow> single_motor_command i t ! j = 65535))
   \<and> (0 \<le> i \<and> i < 6 \<and> \<not> instrument_set d \<longrightarrow>
        move_single_motor b i t h NO_ACTION_VALUE d = (False, d))
   \<and> (i < 0 \<or> 6 \<le> i \<longrightarrow> move_single_motor b i t h NO_ACTION_VALUE d = (False, d))"
  using move_single_motor_connected [of i d b t h] single_motor_command_slots [of i t]
    move_single_motor_not_connected [of i d b t h NO_ACTION_VALUE]
    move_single_motor_out_of_range [of i b t h NO_ACTION_VALUE d]
  by blast

theorem C10_move_single_motor_witness:
  "move_single_motor (bus_rejects_first 0) 3 (-1) (1 / 4) NO_ACTION_VALUE connected_driver =
     (True, \<lparr>instrument_set = True,
             attempts = [\<lparr>address = 1486,
                          register_values = [65535, 65535, 65535, 65535, 65535, 65535],
                          completed_ok = True\<rparr>]\<rparr>)
   \<and> move_single_motor (bus_rejects_first 0) 2 70000 (1 / 4) NO_ACTION_VALUE connected_driver =
     (True, \<lparr>instrument_set = True,
             attempts = [\<lparr>address = 1486,
                          register_values = [65535, 65535, 4464, 65535, 65535, 65535],
                          completed_ok = True\<rparr>]\<rparr>)
   \<and> move_single_motor (bus_rejects_first 0) 2 500 (1 / 4) NO_ACTION_VALUE fresh_driver = (False, fresh_driver)
   \<and> move_single_motor (bus_rejects_first 0) 6 500 (1 / 4) NO_ACTION_VALUE connected_driver = (False, connected_driver)
   \<and> move_single_motor (bus_rejects_first 0) (-1) 500 (1 / 4) NO_ACTION_VALUE connected_driver = (False, connected_driver)"
  using C10_move_single_motor [of 3 connected_driver "bus_rejects_first 0" "-1" "1 / 4"]
    C10_move_single_motor [of 2 connected_driver "bus_rejects_first 0" 70000 "1 / 4"]
    C10_move_single_motor [of 2 fresh_driver "bus_rejects_first 0" 500 "1 / 4"]
    C10_move_single_motor [of 6 connected_driver "bus_rejects_first 0" 500 "1 / 4"]
    C10_move_single_motor [of "-1" connected_driver "bus_rejects_first 0" 500 "1 / 4"]
  by (simp add: connected_driver_def fresh_driver_def bus_rejects_first_def single_motor_command_def
      eval_nat_numeral)

section \<open>Properties of the parsers\<close>

lemmas parse_eval = parse_finger_indices_def parse_joint_targets_def nonblank_fields_def strip_def is_space_def
  py_int_def py_float_of_def signed_digits_def split_sign_def digitpart_def digit_of_def decimal_value_def
  number_part_def exponent_part_def scale10_def to_lower_def

lemma split_comma_plain: "CHR '','' \<notin> set p \<Longrightarrow> split_comma p = [p]"
  by (induction p) auto

lemma split_comma_field:
  "CHR '','' \<notin> set p \<Longrightarrow> split_comma (p @ CHR '','' # rest) = p # split_comma rest"
  by (induction p) auto

lemma split_comma_join:
  assumes "ps \<noteq> []" and "list_all (\<lambda>p. CHR '','' \<notin> set p) ps"
  shows "split_comma (comma_join ps) = ps"
  using assms
proof (induction ps rule: comma_join.induct)
  case 1
  then show ?case by simp
next
  case (2 p)
  then show ?case by (simp add: split_comma_plain)
next
  case (3 p q ps)
  then show ?case by (simp add: split_comma_field)
qed

lemma nonblank_fields_join:
  assumes "ps \<noteq> []" and "list_all clean_field ps"
  shows "nonblank_fields (comma_join ps) = ps"
proof -
  from assms(2) have commas: "list_all (\<lambda>p. CHR '','' \<notin> set p) ps"
    and stripped: "map strip ps = ps" and nonempty: "filter (\<lambda>p. p \<noteq> []) ps = ps"
    by (induction ps) (simp_all add: clean_field_def)
  from split_comma_join [OF assms(1) commas] stripped nonempty show ?thesis
    by (simp add: nonblank_fields_def)
qed

lemma those_map_Some: "those xs = Some ys \<longleftrightarrow> xs = map Some ys"
proof (induction xs arbitrary: ys)
  case Nil
  then show ?case by auto
next
  case (Cons x xs)
  then show ?case by (cases x; cases ys) (auto split: option.splits)
qed

lemma those_map_total:
  "list_all (\<lambda>p. f p \<noteq> None) ps \<Longrightarrow> those (map f ps) = Some (map (the \<circ> f) ps)"
  by (induction ps) auto

lemma those_map_defined:
  "those (map f ps) = Some vs \<Longrightarrow> list_all (\<lambda>p. f p \<noteq> None) ps \<and> vs = map (the \<circ> f) ps"
proof (induction ps arbitrary: vs)
  case Nil
  then show ?case by simp
next
  case (Cons p ps)
  then show ?case by (auto split: option.splits)
qed

lemma finger_field_iff:
  "finger_field p \<longleftrightarrow> py_int p \<noteq> None \<and> 0 \<le> the (py_int p) \<and> the (py_int p) \<le> 5"
  by (simp add: finger_field_def split: option.splits)

lemma float_field_iff: "float_field p \<longleftrightarrow> py_float_of p \<noteq> None"
  by (simp add: float_field_def split: option.splits)

lemma parse_finger_indices_Inr_iff:
  "parse_finger_indices text = Inr vs \<longleftrightarrow>
     length (nonblank_fields text) = 4 \<and> list_all finger_field (nonblank_fields text)
     \<and> vs = map (the \<circ> py_int) (nonblank_fields text)"
proof (cases "those (map py_int (nonblank_fields text))")
  case None
  have "\<not> list_all finger_field (nonblank_fields text)"
  proof
    assume "list_all finger_field (nonblank_fields text)"
    then have "list_all (\<lambda>p. py_int p \<noteq> None) (nonblank_fields text)"
      by (simp add: list_all_iff finger_field_iff)
    from those_map_total [OF this] None show False by simp
  qed
  with None show ?thesis by (simp add: parse_finger_indices_def Let_def)
next
  case (Some vals)
  from those_map_defined [OF Some]
  have defined: "list_all (\<lambda>p. py_int p \<noteq> None) (nonblank_fields text)"
    and vals: "vals = map (the \<circ> py_int) (nonblank_fields text)" by simp_all
  have "list_ex (\<lambda>v. v < 0 \<or> 5 < v) vals \<longleftrightarrow> \<not> list_all finger_field (nonblank_fields text)"
    using defined unfolding vals
    by (simp add: list_ex_iff list_all_iff finger_field_iff) (meson not_le)
  with Some vals show ?thesis
    by (auto simp: parse_finger_indices_def Let_def)
qed

lemma parse_joint_targets_Inr_iff:
  "parse_joint_targets text = Inr xs \<longleftrightarrow>
     length (nonblank_fields text) = 6 \<and> list_all float_field (nonblank_fields text)
     \<and> xs = map (the \<circ> py_float_of) (nonblank_fields text)"
proof (cases "those (map py_float_of (nonblank_fields text))")
  case None
  have "\<not> list_all float_field (nonblank_fields text)"
  proof
    assume "list_all float_field (nonblank_fields text)"
    then have "list_all (\<lambda>p. py_float_of p \<noteq> None) (nonblank_fields text)"
      by (simp add: list_all_iff float_field_iff)
    from those_map_total [OF this] None show False by simp
  qed
  with None show ?thesis by (simp add: parse_joint_targets_def Let_def)
next
  case (Some targets)
  from those_map_defined [OF Some]
  have defined: "list_all (\<lambda>p. py_float_of p \<noteq> None) (nonblank_fields text)"
    and targets: "targets = map (the \<circ> py_float_of) (nonblank_fields text)" by simp_all
  from defined have "list_all float_field (nonblank_fields text)"
    by (simp add: list_all_iff float_field_iff)
  with Some targets show ?thesis
    by (auto simp: parse_joint_targets_def Let_def)
qed

lemma parse_finger_indices_error: "parse_finger_indices text = Inl e \<Longrightarrow> e = ValueError"
  by (cases e) (auto simp: parse_finger_indices_def Let_def split: if_splits option.splits)

lemma parse_joint_targets_error: "parse_joint_targets text = Inl e \<Longrightarrow> e = ValueError"
  by (cases e) (auto simp: parse_joint_targets_def Let_def split: if_splits option.splits)

text \<open>
  C9 as stated fails: finger indices that are not distinct are accepted, and so is an
  input with more comma-separated fields than four (or six) when the extra fields are
  blank.
\<close>

theorem C9_duplicates_and_blank_fields_accepted:
  "parse_finger_indices ''1,1,1,1'' = Inr [1, 1, 1, 1]
   \<and> \<not> distinct [1, 1, 1, 1 :: int]
   \<and> parse_finger_indices ''3,2,,1,0,'' = Inr [3, 2, 1, 0]
   \<and> length (split_comma ''3,2,,1,0,'') = 6
   \<and> parse_joint_targets ''0,0,0,0,90,-45,'' = Inr [Float 0, Float 0, Float 0, Float 0, Float 90, Float (-45)]
   \<and> length (split_comma ''0,0,0,0,90,-45,'') = 7"
  by (simp add: parse_eval)

text \<open>
  C9, amended: parsing of the finger indices succeeds exactly when, after the input is
  split at the commas and the blank fields (empty or white space only) are dropped,
  exactly 4 fields remain and each of them is an integer literal with a value in [0,5];
  the result is then the list of these 4 values, which need not be distinct. Parsing of
  a joint pose succeeds exactly when exactly 6 non-blank fields remain and each of them
  is a number literal; the result then has 6 entries. In every other case ValueError is
  raised. In particular four (six) such fields written without white space and joined
  by commas are accepted.
\<close>

theorem C9_parsers:
  "(parse_finger_indices text = Inr vs \<longleftrightarrow>
      length (nonblank_fields text) = 4 \<and> list_all finger_field (nonblank_fields text)
      \<and> vs = map (the \<circ> py_int) (nonblank_fields text))
   \<and> (parse_finger_indices text = Inr vs \<longrightarrow> length vs = 4 \<and> list_all (\<lambda>v. 0 \<le> v \<and> v \<le> 5) vs)
   \<and> (parse_finger_indices text = Inl e \<longrightarrow> e = ValueError)
   \<and> (length ps = 4 \<and> list_all clean_field ps \<and> list_all finger_field ps
        \<longrightarrow> parse_finger_indices (comma_join ps) = Inr (map (the \<circ> py_int) ps))
   \<and> (parse_joint_targets text = Inr xs \<longleftrightarrow>
      length (nonblank_fields text) = 6 \<and> list_all float_field (nonblank_fields text)
      \<and> xs = map (the \<circ> py_float_of) (nonblank_fields text))
   \<and> (parse_joint_targets text = Inr xs \<longrightarrow> length xs = 6)
   \<and> (parse_joint_targets text = Inl e \<longrightarrow> e = ValueError)
   \<and> (length qs = 6 \<and> list_all clean_field qs \<and> list_all float_field qs
        \<longrightarrow> parse_joint_targets (comma_join qs) = Inr (map (the \<circ> py_float_of) qs))"
proof -
  have f2: "length vs = 4 \<and> list_all (\<lambda>v. 0 \<le> v \<and> v \<le> 5) vs" if "parse_finger_indices text = Inr vs"
  proof -
    from that have "length (nonblank_fields text) = 4" "list_all finger_field (nonblank_fields text)"
      "vs = map (the \<circ> py_int) (nonblank_fields text)"
      by (simp_all add: parse_finger_indices_Inr_iff)
    then show ?thesis by (simp add: list_all_iff finger_field_iff)
  qed
  have f4: "parse_finger_indices (comma_join ps) = Inr (map (the \<circ> py_int) ps)"
    if "length ps = 4 \<and> list_all clean_field ps \<and> list_all finger_field ps"
  proof -
    from that have "ps \<noteq> []" by auto
    with that have "nonblank_fields (comma_join ps) = ps" by (simp add: nonblank_fields_join)
    with that show ?thesis by (simp add: parse_finger_indices_Inr_iff)
  qed
  have j2: "length xs = 6" if "parse_joint_targets text = Inr xs"
    using that by (simp add: parse_joint_targets_Inr_iff)
  have j4: "parse_joint_targets (comma_join qs) = Inr (map (the \<circ> py_float_of) qs)"
    if "length qs = 6 \<and> list_all clean_field qs \<and> list_all float_field qs"
  proof -
    from that have "qs \<noteq> []" by auto
    with that have "nonblank_fields (comma_join qs) = qs" by (simp add: nonblank_fields_join)
    with that show ?thesis by (simp add: parse_joint_targets_Inr_iff)
  qed
  from f2 f4 j2 j4 parse_finger_indices_Inr_iff [of "text" vs] parse_joint_targets_Inr_iff [of "text" xs]
    parse_finger_indices_error [of "text" e] parse_joint_targets_error [of "text" e]
  show ?thesis by blast
qed

theorem C9_parsers_witness:
  "parse_finger_indices ''3,2,1,0'' = Inr [3, 2, 1, 0]
   \<and> parse_finger_indices (comma_join [''3'', ''2'', ''1'', ''0'']) = Inr [3, 2, 1, 0]
   \<and> parse_finger_indices ''3,2,1'' = Inl ValueError
   \<and> parse_finger_indices ''3,2,1,6'' = Inl ValueError
   \<and> parse_joint_targets ''0.0,-17.0,-28.0,0.0,75.0,-45.0'' =
        Inr [Float 0, Float (-17), Float (-28), Float 0, Float 75, Float (-45)]
   \<and> parse_joint_targets (comma_join [''0.0'', ''-17.0'', ''-28.0'', ''0.0'', ''75.0'', ''-45.0'']) =
        Inr [Float 0, Float (-17), Float (-28), Float 0, Float 75, Float (-45)]
   \<and> parse_joint_targets ''0.0,-17.0,-28.0,0.0,75.0'' = Inl ValueError"
proof -
  let ?fs = "[''3'', ''2'', ''1'', ''0'']"
  let ?js = "[''0.0'', ''-17.0'', ''-28.0'', ''0.0'', ''75.0'', ''-45.0'']"
  have fields: "nonblank_fields ''3,2,1,0'' = ?fs" "nonblank_fields ''3,2,1'' = [''3'', ''2'', ''1'']"
    "nonblank_fields ''3,2,1,6'' = [''3'', ''2'', ''1'', ''6'']"
    "nonblank_fields ''0.0,-17.0,-28.0,0.0,75.0,-45.0'' = ?js"
    "nonblank_fields ''0.0,-17.0,-28.0,0.0,75.0'' = [''0.0'', ''-17.0'', ''-28.0'', ''0.0'', ''75.0'']"
    by (simp_all add: nonblank_fields_def strip_def is_space_def)
  have ok: "list_all clean_field ?fs" "list_all finger_field ?fs" "map (the \<circ> py_int) ?fs = [3, 2, 1, 0]"
    "list_all clean_field ?js" "list_all float_field ?js"
    "map (the \<circ> py_float_of) ?js = [Float 0, Float (-17), Float (-28), Float 0, Float 75, Float (-45)]"
    "\<not> finger_field ''6''"
    by (simp_all add: clean_field_def finger_field_def float_field_def parse_eval)
  note c1 = C9_parsers [of "''3,2,1,0''" "[3, 2, 1, 0]" _ ?fs _ ?js]
  note c2 = C9_parsers [of "''0.0,-17.0,-28.0,0.0,75.0,-45.0''" _ _ _
      "[Float 0, Float (-17), Float (-28), Float 0, Float 75, Float (-45)]"]
  have a: "parse_finger_indices ''3,2,1,0'' = Inr [3, 2, 1, 0]"
    and b: "parse_finger_indices (comma_join ?fs) = Inr [3, 2, 1, 0]"
    and c: "parse_joint_targets ''0.0,-17.0,-28.0,0.0,75.0,-45.0'' =
        Inr [Float 0, Float (-17), Float (-28), Float 0, Float 75, Float (-45)]"
    and d: "parse_joint_targets (comma_join ?js) =
        Inr [Float 0, Float (-17), Float (-28), Float 0, Float 75, Float (-45)]"
    using c1 c2 fields ok by simp_all
  have e: "parse_finger_indices ''3,2,1'' = Inl ValueError"
  proof (cases "parse_finger_indices ''3,2,1''")
    case (Inl err)
    with C9_parsers [of "''3,2,1''" _ err] show ?thesis by simp
  next
    case (Inr vs)
    with C9_parsers [of "''3,2,1''" vs] fields show ?thesis by simp
  qed
  have f: "parse_finger_indices ''3,2,1,6'' = Inl ValueError"
  proof (cases "parse_finger_indices ''3,2,1,6''")
    case (Inl err)
    with C9_parsers [of "''3,2,1,6''" _ err] show ?thesis by simp
  next
    case (Inr vs)
    with C9_parsers [of "''3,2,1,6''" vs] fields ok show ?thesis by simp
  qed
  have g: "parse_joint_targets ''0.0,-17.0,-28.0,0.0,75.0'' = Inl ValueError"
  proof (cases "parse_joint_targets ''0.0,-17.0,-28.0,0.0,75.0''")
    case (Inl err)
    with C9_parsers [of "''0.0,-17.0,-28.0,0.0,75.0''" _ err] show ?thesis by simp
  next
    case (Inr xs)
    with C9_parsers [of "''0.0,-17.0,-28.0,0.0,75.0''" _ _ _ xs] fields show ?thesis by simp
  qed
  from a b c d e f g show ?thesis by simp
qed

end
